theory Spec2Isabelle
  imports Main "HOL-Library.Product_Lexorder"
begin

section \<open>The store: tables of \<open>execution/db_manager.py\<close>\<close>

text \<open>
  Wall-clock values. \<open>datetime.now().isoformat()\<close> yields fixed-width ISO-8601 text whose
  lexicographic order (the order SQLite uses on the TEXT columns) is the chronological
  order, so a timestamp is modelled by its number of microseconds.
\<close>

type_synonym timestamp = int

definition hours :: "int \<Rightarrow> int" where
  "hours h = h * 3600000000"

text \<open>The five lifecycle states listed in the schema comment of \<open>scan_state.status\<close>.\<close>

datatype chunk_status = QUEUED | SCANNING | RETRYING | COMPLETED | FAILED

text \<open>One row of table \<open>scan_state\<close>. Columns without NOT NULL are options where the
  code can leave them NULL.\<close>

record scan_chunk =
  chunk_id :: nat
  cidr :: string
  chunk_start :: "string option"
  chunk_end :: "string option"
  status :: chunk_status
  priority :: int
  retry_count :: int
  last_error :: "string option"
  created_at :: timestamp
  updated_at :: timestamp

text \<open>One row of table \<open>hosts\<close> (the geo columns are never written by the core).\<close>

record host =
  host_ip :: string
  host_first_seen :: timestamp
  host_last_seen :: timestamp

text \<open>One row of table \<open>services\<close>.\<close>

record service =
  svc_id :: nat
  svc_ip :: string
  svc_port :: int
  svc_protocol :: string
  svc_state :: string
  svc_service_type :: "string option"
  svc_vendor :: "string option"
  svc_product :: "string option"
  svc_version :: "string option"
  svc_banner :: "string option"
  svc_confidence :: "int option"
  svc_tags :: "string list"
  svc_first_seen :: timestamp
  svc_last_seen :: timestamp

text \<open>One row of table \<open>history\<close>.\<close>

record history_event =
  hist_id :: nat
  hist_service_id :: nat
  hist_timestamp :: timestamp
  hist_banner :: string
  hist_state :: string

text \<open>
  The database file: four tables in rowid order, and for each AUTOINCREMENT table the
  largest rowid ever handed out (SQLite's \<open>sqlite_sequence\<close>).
\<close>

record database =
  hosts :: "host list"
  services :: "service list"
  services_seq :: nat
  history :: "history_event list"
  history_seq :: nat
  scan_state :: "scan_chunk list"
  scan_state_seq :: nat

definition empty_db :: database where
  "empty_db = \<lparr>hosts = [], services = [], services_seq = 0, history = [], history_seq = 0,
     scan_state = [], scan_state_seq = 0\<rparr>"

text \<open>AUTOINCREMENT: one more than the largest rowid that is or ever was in the table.\<close>

definition next_rowid :: "nat \<Rightarrow> nat list \<Rightarrow> nat" where
  "next_rowid seq ids = Suc (fold max ids seq)"

subsection \<open>Scheduler operations of the store\<close>

text \<open>\<open>create_scan_chunk\<close>: the INSERT names neither \<open>retry_count\<close> (DEFAULT 0) nor
  \<open>last_error\<close> (NULL).\<close>

definition create_scan_chunk ::
    "timestamp \<Rightarrow> string \<Rightarrow> string \<Rightarrow> string \<Rightarrow> int \<Rightarrow> database \<Rightarrow> database" where
  "create_scan_chunk now cidr0 start_ip end_ip prio db =
     (let i = next_rowid (scan_state_seq db) (map chunk_id (scan_state db))
      in db\<lparr>scan_state := scan_state db @
               [\<lparr>chunk_id = i, cidr = cidr0, chunk_start = Some start_ip,
                 chunk_end = Some end_ip, status = QUEUED, priority = prio,
                 retry_count = 0, last_error = None, created_at = now,
                 updated_at = now\<rparr>],
             scan_state_seq := i\<rparr>)"

text \<open>\<open>UPDATE scan_state SET ... WHERE id = ?\<close>: every row with that id is rewritten.\<close>

definition update_where_id :: "nat \<Rightarrow> (scan_chunk \<Rightarrow> scan_chunk) \<Rightarrow> database \<Rightarrow> database" where
  "update_where_id cid f db =
     db\<lparr>scan_state := map (\<lambda>c. if chunk_id c = cid then f c else c) (scan_state db)\<rparr>"

text \<open>\<open>reset_stale_chunk\<close>.\<close>

definition reset_stale_chunk :: "timestamp \<Rightarrow> nat \<Rightarrow> database \<Rightarrow> database" where
  "reset_stale_chunk now cid db =
     update_where_id cid (\<lambda>c. c\<lparr>status := QUEUED, updated_at := now, retry_count := 0\<rparr>) db"

text \<open>
  \<open>get_next_chunk\<close> of the store:
  \<^verbatim>\<open>SELECT id, chunk_start, chunk_end, retry_count FROM scan_state
  WHERE status IN ('QUEUED', 'RETRYING') ORDER BY priority DESC, created_at ASC LIMIT 1\<close>.
  The sort is stable, so rows that agree on both keys stay in rowid order.
\<close>

definition pending :: "scan_chunk \<Rightarrow> bool" where
  "pending c = (status c = QUEUED \<or> status c = RETRYING)"

definition queue_order :: "scan_chunk \<Rightarrow> int \<times> timestamp" where
  "queue_order c = (- priority c, created_at c)"

definition db_get_next_chunk ::
    "database \<Rightarrow> (nat \<times> string option \<times> string option \<times> int) option" where
  "db_get_next_chunk db =
     (case sort_key queue_order (filter pending (scan_state db)) of
        [] \<Rightarrow> None
      | row # _ \<Rightarrow> Some (chunk_id row, chunk_start row, chunk_end row, retry_count row))"

text \<open>\<open>update_chunk_status\<close>. Python's \<open>if error:\<close> is false for \<open>None\<close> and for the empty
  string.\<close>

definition truthy :: "string option \<Rightarrow> bool" where
  "truthy e = (case e of None \<Rightarrow> False | Some t \<Rightarrow> t \<noteq> [])"

definition update_chunk_status ::
    "timestamp \<Rightarrow> nat \<Rightarrow> chunk_status \<Rightarrow> string option \<Rightarrow> database \<Rightarrow> database" where
  "update_chunk_status now cid st err db =
     (if truthy err
      then update_where_id cid
             (\<lambda>c. c\<lparr>status := st, last_error := err, updated_at := now,
                    retry_count := retry_count c + 1\<rparr>) db
      else update_where_id cid (\<lambda>c. c\<lparr>status := st, updated_at := now\<rparr>) db)"

text \<open>\<open>get_stale_chunks\<close>: COMPLETED rows older than the cutoff in one priority class,
  oldest update first, at most \<open>limit\<close> of them.\<close>

definition get_stale_chunks ::
    "timestamp \<Rightarrow> nat \<Rightarrow> bool \<Rightarrow> int \<Rightarrow> database \<Rightarrow> (nat \<times> string \<times> int \<times> timestamp) list" where
  "get_stale_chunks now limit high_priority min_age_hours db =
     map (\<lambda>c. (chunk_id c, cidr c, priority c, created_at c))
       (take limit (sort_key updated_at
          (filter (\<lambda>c. status c = COMPLETED \<and> updated_at c < now - hours min_age_hours \<and>
                        (if high_priority then priority c \<ge> 5 else priority c < 5))
             (scan_state db))))"

text \<open>\<open>promote_ignored_chunks\<close>.\<close>

definition promote_ignored_chunks :: "timestamp \<Rightarrow> int \<Rightarrow> database \<Rightarrow> database" where
  "promote_ignored_chunks now age_hours db =
     db\<lparr>scan_state :=
          map (\<lambda>c. if status c = QUEUED \<and> created_at c < now - hours age_hours \<and> priority c < 10
                    then c\<lparr>priority := priority c + 1, updated_at := now\<rparr> else c)
            (scan_state db)\<rparr>"

subsection \<open>Batch persistence\<close>

text \<open>
  The \<open>analysis\<close> entry of an observation dict. The text fields are read with
  \<open>analysis.get(key)\<close> only, so such a field is \<open>None\<close> when the key is missing or holds
  \<open>None\<close>. \<open>confidence\<close> is read with \<open>analysis.get('confidence')\<close> by the update and with
  \<open>analysis.get('confidence', 0)\<close> by the insert, which tell a missing key from a key
  that holds \<open>None\<close>: \<open>an_confidence\<close> is \<open>None\<close> for a missing key and \<open>Some v\<close> for a key
  holding \<open>v\<close>. \<open>tags\<close>, when the key is there, holds a list. A missing \<open>analysis\<close> is the
  dict with no key.
\<close>

record analysis =
  an_service_type :: "string option"
  an_vendor :: "string option"
  an_product :: "string option"
  an_version :: "string option"
  an_confidence :: "int option option"
  an_tags :: "string list option"

text \<open>\<open>d.get(key)\<close> and \<open>d.get(key, default)\<close> on an entry that may be missing.\<close>

definition dict_get :: "'a option option \<Rightarrow> 'a option" where
  "dict_get entry = (case entry of None \<Rightarrow> None | Some v \<Rightarrow> v)"

definition dict_get_default :: "'a option option \<Rightarrow> 'a \<Rightarrow> 'a option" where
  "dict_get_default entry d = (case entry of None \<Rightarrow> Some d | Some v \<Rightarrow> v)"

definition no_analysis :: analysis where
  "no_analysis = \<lparr>an_service_type = None, an_vendor = None, an_product = None,
     an_version = None, an_confidence = None, an_tags = None\<rparr>"

text \<open>
  The observation dict handed to the store: the keys of \<open>Observation.to_dict\<close> that the
  store reads, and \<open>analysis\<close>. \<open>banner\<close> is \<open>None\<close> for Python's \<open>None\<close>.
\<close>

record obs_dict =
  ob_ip :: string
  ob_port :: int
  ob_protocol :: string
  ob_timestamp :: timestamp
  ob_status :: string
  ob_banner :: "string option"
  ob_analysis :: analysis

type_synonym service_key = "string \<times> int \<times> string"

definition obs_key :: "obs_dict \<Rightarrow> service_key" where
  "obs_key ob = (ob_ip ob, ob_port ob, ob_protocol ob)"

definition svc_key :: "service \<Rightarrow> service_key" where
  "svc_key r = (svc_ip r, svc_port r, svc_protocol r)"

datatype error = IntegrityError

text \<open>\<open>upsert_host_batch\<close>: \<open>INSERT ... ON CONFLICT(ip) DO UPDATE SET last_seen\<close>, one
  statement per pair, in order.\<close>

definition upsert_host :: "string \<times> timestamp \<Rightarrow> host list \<Rightarrow> host list" where
  "upsert_host p hs =
     (case p of (ip, ts) \<Rightarrow>
        if ip \<in> set (map host_ip hs)
        then map (\<lambda>h. if host_ip h = ip then h\<lparr>host_last_seen := ts\<rparr> else h) hs
        else hs @ [\<lparr>host_ip = ip, host_first_seen = ts, host_last_seen = ts\<rparr>])"

definition upsert_host_batch :: "(string \<times> timestamp) list \<Rightarrow> database \<Rightarrow> database" where
  "upsert_host_batch hosts_data db = db\<lparr>hosts := fold upsert_host hosts_data (hosts db)\<rparr>"

text \<open>The dict \<open>existing_map\<close>: the rows of \<open>services\<close> whose ip occurs in the batch, keyed
  by \<open>(ip, port, protocol)\<close>; a later row overwrites an earlier one with the same key.\<close>

definition existing_map ::
    "obs_dict list \<Rightarrow> database \<Rightarrow> (service_key \<rightharpoonup> nat \<times> string option \<times> string)" where
  "existing_map observations db =
     fold (\<lambda>row m. m(svc_key row \<mapsto> (svc_id row, svc_banner row, svc_state row)))
       (filter (\<lambda>row. svc_ip row \<in> set (map ob_ip observations)) (services db))
       Map.empty"

text \<open>One tuple of \<open>to_update\<close> and one of \<open>history_inserts\<close>.\<close>

record update_row =
  up_ts :: timestamp
  up_banner :: string
  up_analysis :: analysis
  up_state :: string
  up_svc_id :: nat

type_synonym history_row = "nat \<times> timestamp \<times> string \<times> string"

text \<open>\<open>obs.get('banner') or ""\<close>.\<close>

definition banner_or_empty :: "obs_dict \<Rightarrow> string" where
  "banner_or_empty ob = (case ob_banner ob of None \<Rightarrow> [] | Some b \<Rightarrow> b)"

text \<open>The history check of the loop body:
  \<open>(new_banner and new_banner != old_banner) or (new_state != old_state)\<close>.\<close>

definition history_due :: "string option \<Rightarrow> string \<Rightarrow> obs_dict \<Rightarrow> bool" where
  "history_due old_banner old_state ob =
     ((banner_or_empty ob \<noteq> [] \<and> Some (banner_or_empty ob) \<noteq> old_banner) \<or>
      ob_status ob \<noteq> old_state)"

text \<open>The row a new service is inserted with (its id is assigned by the INSERT).
  \<open>analysis.get('confidence', 0)\<close> is 0 for a missing key, also when the observation
  has no \<open>analysis\<close>, and the held value otherwise.\<close>

definition new_service :: "obs_dict \<Rightarrow> service" where
  "new_service ob =
     \<lparr>svc_id = 0, svc_ip = ob_ip ob, svc_port = ob_port ob, svc_protocol = ob_protocol ob,
      svc_state = ob_status ob,
      svc_service_type = an_service_type (ob_analysis ob),
      svc_vendor = an_vendor (ob_analysis ob),
      svc_product = an_product (ob_analysis ob),
      svc_version = an_version (ob_analysis ob),
      svc_banner = ob_banner ob,
      svc_confidence = dict_get_default (an_confidence (ob_analysis ob)) 0,
      svc_tags = (case an_tags (ob_analysis ob) of None \<Rightarrow> [] | Some ts \<Rightarrow> ts),
      svc_first_seen = ob_timestamp ob, svc_last_seen = ob_timestamp ob\<rparr>"

text \<open>The loop over the batch: it fills \<open>to_insert\<close>, \<open>to_update\<close> and \<open>history_inserts\<close>
  from \<open>existing_map\<close>, which it never changes.\<close>

fun partition_batch ::
    "(service_key \<rightharpoonup> nat \<times> string option \<times> string) \<Rightarrow> obs_dict list \<Rightarrow>
     service list \<times> update_row list \<times> history_row list" where
  "partition_batch em [] = ([], [], [])"
| "partition_batch em (ob # rest) =
     (case partition_batch em rest of (to_insert, to_update, history_inserts) \<Rightarrow>
        (case em (obs_key ob) of
           Some (sid, old_banner, old_state) \<Rightarrow>
             (to_insert,
              \<lparr>up_ts = ob_timestamp ob, up_banner = banner_or_empty ob,
                up_analysis = ob_analysis ob, up_state = ob_status ob, up_svc_id = sid\<rparr> # to_update,
              (if history_due old_banner old_state ob
               then [(sid, ob_timestamp ob, banner_or_empty ob, ob_status ob)] else [])
                @ history_inserts)
         | None \<Rightarrow> (new_service ob # to_insert, to_update, history_inserts)))"

text \<open>\<open>INSERT INTO services\<close>, one row: the UNIQUE(ip, port, protocol) constraint of the
  schema rejects a key that is already in the table.\<close>

definition insert_service :: "service \<Rightarrow> database \<Rightarrow> error + database" where
  "insert_service row db =
     (if svc_key row \<in> set (map svc_key (services db)) then Inl IntegrityError
      else let i = next_rowid (services_seq db) (map svc_id (services db))
           in Inr (db\<lparr>services := services db @ [row\<lparr>svc_id := i\<rparr>], services_seq := i\<rparr>))"

fun insert_services :: "service list \<Rightarrow> database \<Rightarrow> error + database" where
  "insert_services [] db = Inr db"
| "insert_services (row # rows) db =
     (case insert_service row db of Inl e \<Rightarrow> Inl e | Inr db' \<Rightarrow> insert_services rows db')"

text \<open>SQL's \<open>COALESCE(new, old)\<close>.\<close>

definition coalesce :: "'a option \<Rightarrow> 'a option \<Rightarrow> 'a option" where
  "coalesce new old = (case new of None \<Rightarrow> old | Some v \<Rightarrow> Some v)"

text \<open>\<open>UPDATE services SET ... WHERE id = ?\<close>. The tags parameter is
  \<open>str(analysis.get('tags', []))\<close>, never NULL, so the stored tags are always replaced.\<close>

definition update_service :: "update_row \<Rightarrow> database \<Rightarrow> database" where
  "update_service u db =
     db\<lparr>services := map (\<lambda>r. if svc_id r = up_svc_id u
        then r\<lparr>svc_last_seen := up_ts u, svc_banner := Some (up_banner u),
               svc_service_type := coalesce (an_service_type (up_analysis u)) (svc_service_type r),
               svc_vendor := coalesce (an_vendor (up_analysis u)) (svc_vendor r),
               svc_product := coalesce (an_product (up_analysis u)) (svc_product r),
               svc_version := coalesce (an_version (up_analysis u)) (svc_version r),
               svc_confidence := coalesce (dict_get (an_confidence (up_analysis u))) (svc_confidence r),
               svc_tags := (case an_tags (up_analysis u) of None \<Rightarrow> [] | Some ts \<Rightarrow> ts),
               svc_state := up_state u\<rparr>
        else r) (services db)\<rparr>"

definition insert_history :: "history_row \<Rightarrow> database \<Rightarrow> database" where
  "insert_history h db =
     (case h of (sid, ts, banner, state) \<Rightarrow>
        let i = next_rowid (history_seq db) (map hist_id (history db))
        in db\<lparr>history := history db @
                 [\<lparr>hist_id = i, hist_service_id = sid, hist_timestamp = ts,
                   hist_banner = banner, hist_state = state\<rparr>],
               history_seq := i\<rparr>)"

text \<open>
  \<open>save_observation_batch\<close>. The result is the committed database, or the exception
  that leaves the function; then nothing was committed and the database file is as it
  was before the call.
\<close>

definition save_observation_batch :: "obs_dict list \<Rightarrow> database \<Rightarrow> error + database" where
  "save_observation_batch observations db =
     (if observations = [] then Inr db
      else
        let db1 = upsert_host_batch (map (\<lambda>ob. (ob_ip ob, ob_timestamp ob)) observations) db
        in case partition_batch (existing_map observations db1) observations of
             (to_insert, to_update, history_inserts) \<Rightarrow>
               (case insert_services to_insert db1 of
                  Inl e \<Rightarrow> Inl e
                | Inr db2 \<Rightarrow> Inr (fold insert_history history_inserts (fold update_service to_update db2))))"

text \<open>A run of batches; it stops at the first exception, as the caller's would.\<close>

fun save_batches :: "obs_dict list list \<Rightarrow> database \<Rightarrow> error + database" where
  "save_batches [] db = Inr db"
| "save_batches (b # bs) db =
     (case save_observation_batch b db of Inl e \<Rightarrow> Inl e | Inr db' \<Rightarrow> save_batches bs db')"

text \<open>Scenario E5: three observations of \<open>1.2.3.4:22\<close>.\<close>

definition e5_obs :: "timestamp \<Rightarrow> string \<Rightarrow> string option \<Rightarrow> obs_dict" where
  "e5_obs ts st b = \<lparr>ob_ip = ''1.2.3.4'', ob_port = 22, ob_protocol = ''tcp'', ob_timestamp = ts,
     ob_status = st, ob_banner = b, ob_analysis = no_analysis\<rparr>"

text \<open>What the loop appends to \<open>history_inserts\<close>.\<close>

definition history_events ::
    "(service_key \<rightharpoonup> nat \<times> string option \<times> string) \<Rightarrow> obs_dict list \<Rightarrow> history_row list" where
  "history_events em observations =
     concat (map (\<lambda>ob. case em (obs_key ob) of
                          None \<Rightarrow> []
                        | Some (sid, old_banner, old_state) \<Rightarrow>
                            if history_due old_banner old_state ob
                            then [(sid, ob_timestamp ob, banner_or_empty ob, ob_status ob)] else [])
                 observations)"

text \<open>The four columns an INSERT into \<open>history\<close> supplies.\<close>

definition history_tuple :: "history_event \<Rightarrow> history_row" where
  "history_tuple h = (hist_service_id h, hist_timestamp h, hist_banner h, hist_state h)"

text \<open>The table holds the key, and every row with the key carries this banner and state
  (and one id).\<close>

definition tracked :: "database \<Rightarrow> service_key \<Rightarrow> string option \<Rightarrow> string \<Rightarrow> bool" where
  "tracked db k b s =
     ((\<exists>r \<in> set (services db). svc_key r = k) \<and>
      (\<exists>sid. \<forall>r \<in> set (services db). svc_key r = k \<longrightarrow>
                svc_id r = sid \<and> svc_banner r = b \<and> svc_state r = s))"

text \<open>Adjacent observations that differ in status, or whose later banner is non-empty
  and differs.\<close>

definition changed :: "obs_dict \<Rightarrow> obs_dict \<Rightarrow> bool" where
  "changed o1 o2 =
     (ob_status o2 \<noteq> ob_status o1 \<or> (banner_or_empty o2 \<noteq> [] \<and> ob_banner o2 \<noteq> ob_banner o1))"

fun adjacent_changes :: "obs_dict list \<Rightarrow> nat" where
  "adjacent_changes (o1 # o2 # rest) = (if changed o1 o2 then 1 else 0) + adjacent_changes (o2 # rest)"
| "adjacent_changes _ = 0"

text \<open>The events a run of single-observation batches appends when the stored row
  starts with banner \<open>b\<close> and state \<open>s\<close>.\<close>

fun changes_from :: "string option \<Rightarrow> string \<Rightarrow> obs_dict list \<Rightarrow> nat" where
  "changes_from b s [] = 0"
| "changes_from b s (ob # rest) =
     (if history_due b s ob then 1 else 0) + changes_from (Some (banner_or_empty ob)) (ob_status ob) rest"

text \<open>The three observations of scenario E5, in order.\<close>

definition e5_batches :: "obs_dict list" where
  "e5_batches = [e5_obs 1 ''open'' (Some ''SSH-2.0-A''), e5_obs 2 ''open'' (Some ''SSH-2.0-B''),
                 e5_obs 3 ''closed'' (Some [])]"


section \<open>The scheduler: \<open>execution/scheduler.py\<close>\<close>

definition CHUNK_SIZE :: nat where
  "CHUNK_SIZE = 256"

definition MAX_RETRIES :: int where
  "MAX_RETRIES = 3"

text \<open>
  The process state of the scheduler: the database, the module global
  \<open>last_maintenance_ts\<close>, and the number of clock readings taken so far. The wall clock is
  a parameter \<open>clk\<close> of every operation: the \<open>n\<close>-th call of \<open>time.time()\<close> or
  \<open>datetime.now()\<close> returns \<open>clk n\<close>. Nothing is assumed about it.
\<close>

record sched =
  store :: database
  last_maintenance_ts :: timestamp
  ticks :: nat

definition advance :: "sched \<Rightarrow> sched" where
  "advance s = s\<lparr>ticks := Suc (ticks s)\<rparr>"

text \<open>One database call that reads the clock once.\<close>

definition db_call :: "(nat \<Rightarrow> timestamp) \<Rightarrow> (timestamp \<Rightarrow> database \<Rightarrow> database) \<Rightarrow> sched \<Rightarrow> sched" where
  "db_call clk f s = advance (s\<lparr>store := f (clk (ticks s)) (store s)\<rparr>)"

subsection \<open>IPv4 networks\<close>

text \<open>
  The value of \<open>ipaddress.ip_network(text, strict=False)\<close> for an IPv4 network: its first
  address as a number below \<open>2 ^ 32\<close> and its prefix length. The library function itself
  is a parameter \<open>parse\<close> of \<open>initialize_scan\<close>; \<open>None\<close> stands for its \<open>ValueError\<close>.
\<close>

record ip_network =
  network_address :: nat
  prefixlen :: nat

definition num_addresses :: "ip_network \<Rightarrow> nat" where
  "num_addresses n = 2 ^ (32 - prefixlen n)"

definition first_address :: "ip_network \<Rightarrow> nat" where
  "first_address n = network_address n"

definition last_address :: "ip_network \<Rightarrow> nat" where
  "last_address n = network_address n + num_addresses n - 1"

text \<open>\<open>network.subnets(new_prefix=k)\<close> for \<open>k\<close> at least the prefix length.\<close>

definition subnets :: "ip_network \<Rightarrow> nat \<Rightarrow> ip_network list" where
  "subnets n new_prefix =
     map (\<lambda>i. \<lparr>network_address = network_address n + i * 2 ^ (32 - new_prefix),
               prefixlen = new_prefix\<rparr>)
       [0 ..< 2 ^ (new_prefix - prefixlen n)]"

definition digit_char :: "nat \<Rightarrow> char" where
  "digit_char d = ''0123456789'' ! d"

fun str_nat :: "nat \<Rightarrow> string" where
  "str_nat n = (if n < 10 then [digit_char n] else str_nat (n div 10) @ [digit_char (n mod 10)])"

definition str_ip :: "nat \<Rightarrow> string" where
  "str_ip a = str_nat (a div 16777216 mod 256) @ ''.'' @ str_nat (a div 65536 mod 256) @ ''.'' @
              str_nat (a div 256 mod 256) @ ''.'' @ str_nat (a mod 256)"

definition str_network :: "ip_network \<Rightarrow> string" where
  "str_network n = str_ip (network_address n) @ ''/'' @ str_nat (prefixlen n)"

subsection \<open>A reader for IPv4 network text\<close>

text \<open>
  What \<open>ipaddress.ip_network(text, strict=False)\<close> accepts as an IPv4 network, following
  the library: \<open>address\<close> or \<open>address/mask\<close>, the address four decimal octets (ASCII
  digits, at most three, no leading zero, at most 255), the mask a prefix length in
  ASCII digits up to 32 or else a dotted-quad netmask or hostmask; host bits are
  cleared. IPv6 text is not read. It is the instance of the parameter \<open>parse\<close> used to
  run \<open>initialize_scan\<close> on concrete targets.
\<close>

fun split_on :: "char \<Rightarrow> string \<Rightarrow> string list" where
  "split_on sep [] = [[]]"
| "split_on sep (x # xs) =
     (if x = sep then [] # split_on sep xs
      else (case split_on sep xs of [] \<Rightarrow> [[x]] | w # ws \<Rightarrow> (x # w) # ws))"

definition digit_val :: "char \<Rightarrow> nat option" where
  "digit_val c = (let n = of_char c :: nat in if 48 \<le> n \<and> n \<le> 57 then Some (n - 48) else None)"

fun int_of_digits :: "nat \<Rightarrow> string \<Rightarrow> nat option" where
  "int_of_digits acc [] = Some acc"
| "int_of_digits acc (c # cs) =
     (case digit_val c of None \<Rightarrow> None | Some d \<Rightarrow> int_of_digits (10 * acc + d) cs)"

definition parse_digits :: "string \<Rightarrow> nat option" where
  "parse_digits t = (if t = [] then None else int_of_digits 0 t)"

definition parse_octet :: "string \<Rightarrow> nat option" where
  "parse_octet t =
     (case parse_digits t of
        None \<Rightarrow> None
      | Some v \<Rightarrow> if length t > 3 \<or> (t \<noteq> ''0'' \<and> hd t = CHR ''0'') \<or> v > 255 then None else Some v)"

definition ip_int_from_string :: "string \<Rightarrow> nat option" where
  "ip_int_from_string t =
     (case map parse_octet (split_on CHR ''.'' t) of
        [Some a, Some b, Some c, Some d] \<Rightarrow> Some (((a * 256 + b) * 256 + c) * 256 + d)
      | _ \<Rightarrow> None)"

definition prefix_from_ip_int :: "nat \<Rightarrow> nat option" where
  "prefix_from_ip_int m = find (\<lambda>p. m = 2 ^ 32 - 2 ^ (32 - p)) [0 ..< 33]"

definition make_netmask :: "string \<Rightarrow> nat option" where
  "make_netmask t =
     (case (case parse_digits t of Some p \<Rightarrow> if p \<le> 32 then Some p else None | None \<Rightarrow> None) of
        Some p \<Rightarrow> Some p
      | None \<Rightarrow>
          (case ip_int_from_string t of
             None \<Rightarrow> None
           | Some m \<Rightarrow>
               (case prefix_from_ip_int m of
                  Some p \<Rightarrow> Some p
                | None \<Rightarrow> prefix_from_ip_int (2 ^ 32 - 1 - m))))"

definition ipv4_network :: "string \<Rightarrow> ip_network option" where
  "ipv4_network t =
     (case split_on CHR ''/'' t of
        [a] \<Rightarrow> (case ip_int_from_string a of
                  None \<Rightarrow> None
                | Some v \<Rightarrow> Some \<lparr>network_address = v, prefixlen = 32\<rparr>)
      | [a, m] \<Rightarrow>
          (case (ip_int_from_string a, make_netmask m) of
             (Some v, Some p) \<Rightarrow>
               Some \<lparr>network_address = v - v mod 2 ^ (32 - p), prefixlen = p\<rparr>
           | _ \<Rightarrow> None)
      | _ \<Rightarrow> None)"

subsection \<open>Scheduler operations\<close>

text \<open>\<open>initialize_scan\<close>. An unparsable target is logged and dropped.\<close>

definition enqueue :: "(nat \<Rightarrow> timestamp) \<Rightarrow> string \<Rightarrow> ip_network \<Rightarrow> int \<Rightarrow> sched \<Rightarrow> sched" where
  "enqueue clk cidr0 n prio s =
     db_call clk (\<lambda>now. create_scan_chunk now cidr0 (str_ip (first_address n))
                          (str_ip (last_address n)) prio) s"

definition initialize_scan ::
    "(string \<Rightarrow> ip_network option) \<Rightarrow> (nat \<Rightarrow> timestamp) \<Rightarrow> string \<Rightarrow> int \<Rightarrow> sched \<Rightarrow> sched" where
  "initialize_scan parse clk target_cidr prio s =
     (case parse target_cidr of
        None \<Rightarrow> s
      | Some network \<Rightarrow>
          if num_addresses network \<le> CHUNK_SIZE
          then enqueue clk (str_network network) network prio s
          else if prefixlen network < 24
          then fold (\<lambda>subnet. enqueue clk target_cidr subnet prio) (subnets network 24) s
          else enqueue clk (str_network network) network prio s)"

text \<open>\<open>maintain_queue_health\<close>, at most once per hour of clock time.\<close>

fun reset_each :: "(nat \<Rightarrow> timestamp) \<Rightarrow> nat list \<Rightarrow> sched \<Rightarrow> sched" where
  "reset_each clk [] s = s"
| "reset_each clk (i # rest) s = reset_each clk rest (db_call clk (\<lambda>now. reset_stale_chunk now i) s)"

definition rescan_stale :: "(nat \<Rightarrow> timestamp) \<Rightarrow> bool \<Rightarrow> int \<Rightarrow> sched \<Rightarrow> sched" where
  "rescan_stale clk high_priority min_age_hours s =
     (let stale = get_stale_chunks (clk (ticks s)) 50 high_priority min_age_hours (store s)
      in reset_each clk (map fst stale) (advance s))"

definition maintain_queue_health :: "(nat \<Rightarrow> timestamp) \<Rightarrow> sched \<Rightarrow> sched" where
  "maintain_queue_health clk s =
     (if clk (ticks s) - last_maintenance_ts s < 3600 * 1000000
      then advance s
      else let s1 = db_call clk (\<lambda>now. promote_ignored_chunks now 48) (advance s);
               s2 = rescan_stale clk True 24 s1;
               s3 = rescan_stale clk False 168 s2
           in advance (s3\<lparr>last_maintenance_ts := clk (ticks s3)\<rparr>))"

text \<open>\<open>get_next_chunk\<close> of the scheduler. The recursive call is the source's
  \<open>return await get_next_chunk()\<close>.\<close>

function get_next_chunk ::
    "(nat \<Rightarrow> timestamp) \<Rightarrow> sched \<Rightarrow> (nat \<times> string option \<times> string option) option \<times> sched" where
  "get_next_chunk clk s =
     (let s1 = maintain_queue_health clk s
      in case db_get_next_chunk (store s1) of
           None \<Rightarrow> (None, s1)
         | Some (cid, start_ip, end_ip, retries) \<Rightarrow>
             if retries \<ge> MAX_RETRIES
             then get_next_chunk clk
                    (db_call clk (\<lambda>now. update_chunk_status now cid FAILED
                                          (Some ''Max Retries Exceeded'')) s1)
             else (Some (cid, start_ip, end_ip),
                   db_call clk (\<lambda>now. update_chunk_status now cid SCANNING None) s1))"
  by pat_completeness auto

text \<open>Chunks that are still schedulable although their retries are used up: the
  candidates that \<open>get_next_chunk\<close> skips. Their number is what the recursion consumes.\<close>

definition exhausted :: "scan_chunk \<Rightarrow> bool" where
  "exhausted c = (pending c \<and> retry_count c \<ge> MAX_RETRIES)"

definition exhausted_count :: "database \<Rightarrow> nat" where
  "exhausted_count db = length (filter exhausted (scan_state db))"

definition complete_chunk :: "(nat \<Rightarrow> timestamp) \<Rightarrow> nat \<Rightarrow> sched \<Rightarrow> sched" where
  "complete_chunk clk cid s = db_call clk (\<lambda>now. update_chunk_status now cid COMPLETED None) s"

definition fail_chunk :: "(nat \<Rightarrow> timestamp) \<Rightarrow> nat \<Rightarrow> string \<Rightarrow> sched \<Rightarrow> sched" where
  "fail_chunk clk cid err s = db_call clk (\<lambda>now. update_chunk_status now cid RETRYING (Some err)) s"

definition initial_sched :: sched where
  "initial_sched = \<lparr>store = empty_db, last_maintenance_ts = 0, ticks = 0\<rparr>"

text \<open>
  The retry bound as an invariant of the table: ids are unique (PRIMARY KEY), a chunk
  that is not FAILED has at most \<open>MAX_RETRIES\<close> retries, and a chunk handed out for
  scanning has fewer.
\<close>

definition row_ok :: "scan_chunk \<Rightarrow> bool" where
  "row_ok c = ((status c \<noteq> FAILED \<longrightarrow> retry_count c \<le> MAX_RETRIES) \<and>
               (status c = SCANNING \<longrightarrow> retry_count c < MAX_RETRIES))"

definition retry_inv :: "database \<Rightarrow> bool" where
  "retry_inv db = (distinct (map chunk_id (scan_state db)) \<and> (\<forall>c \<in> set (scan_state db). row_ok c))"

text \<open>
  The states the engine can reach from a fresh database (\<open>scanner.main\<close>): it seeds
  targets, fetches the next chunk, and completes or fails a chunk that is in SCANNING,
  which is the chunk \<open>get_next_chunk\<close> handed to it; maintenance may also run on its own.
\<close>

inductive reachable :: "(string \<Rightarrow> ip_network option) \<Rightarrow> (nat \<Rightarrow> timestamp) \<Rightarrow> sched \<Rightarrow> bool"
  for parse :: "string \<Rightarrow> ip_network option" and clk :: "nat \<Rightarrow> timestamp" where
  start: "reachable parse clk initial_sched"
| seed: "reachable parse clk s \<Longrightarrow> reachable parse clk (initialize_scan parse clk target prio s)"
| fetch: "reachable parse clk s \<Longrightarrow> reachable parse clk (snd (get_next_chunk clk s))"
| complete: "reachable parse clk s \<Longrightarrow> c \<in> set (scan_state (store s)) \<Longrightarrow> status c = SCANNING \<Longrightarrow>
     reachable parse clk (complete_chunk clk (chunk_id c) s)"
| fail: "reachable parse clk s \<Longrightarrow> c \<in> set (scan_state (store s)) \<Longrightarrow> status c = SCANNING \<Longrightarrow>
     reachable parse clk (fail_chunk clk (chunk_id c) err s)"
| maintain: "reachable parse clk s \<Longrightarrow> reachable parse clk (maintain_queue_health clk s)"

text \<open>Every row with the given id is FAILED.\<close>

definition all_failed :: "database \<Rightarrow> nat \<Rightarrow> bool" where
  "all_failed db i = (\<forall>c \<in> set (scan_state db). chunk_id c = i \<longrightarrow> status c = FAILED)"

text \<open>The ids of the chunk table, in rowid order.\<close>

definition chunk_ids :: "sched \<Rightarrow> nat list" where
  "chunk_ids s = map chunk_id (scan_state (store s))"

text \<open>A one-chunk scheduler state, for running the retry lifecycle under a clock that
  stands still (so that maintenance never fires).\<close>

definition retry_demo :: "chunk_status \<Rightarrow> int \<Rightarrow> string option \<Rightarrow> nat \<Rightarrow> sched" where
  "retry_demo st n err t =
     \<lparr>store = empty_db\<lparr>scan_state :=
        [\<lparr>chunk_id = 1, cidr = ''127.0.0.1/32'', chunk_start = Some ''127.0.0.1'',
          chunk_end = Some ''127.0.0.1'', status = st, priority = 1, retry_count = n,
          last_error = err, created_at = 0, updated_at = 0\<rparr>],
        scan_state_seq := 1\<rparr>,
      last_maintenance_ts = 0, ticks = t\<rparr>"

text \<open>Scenario E1 of the specification: on a fresh database, \<open>127.0.0.1/32\<close> is enqueued
  at priority 1 and then \<open>127.0.0.2/32\<close> at priority 10. \<open>e1_db\<close> is the shape of the
  table afterwards, with the fields that maintenance may touch left open.\<close>

definition e1_sched :: "(nat \<Rightarrow> timestamp) \<Rightarrow> sched" where
  "e1_sched clk = initialize_scan ipv4_network clk ''127.0.0.2/32'' 10
                    (initialize_scan ipv4_network clk ''127.0.0.1/32'' 1 initial_sched)"

definition e1_db :: "int \<Rightarrow> timestamp \<Rightarrow> timestamp \<Rightarrow> timestamp \<Rightarrow> database" where
  "e1_db p c0 u c1 = empty_db\<lparr>scan_state :=
       [\<lparr>chunk_id = 1, cidr = ''127.0.0.1/32'', chunk_start = Some ''127.0.0.1'',
         chunk_end = Some ''127.0.0.1'', status = QUEUED, priority = p, retry_count = 0,
         last_error = None, created_at = c0, updated_at = u\<rparr>,
        \<lparr>chunk_id = 2, cidr = ''127.0.0.2/32'', chunk_start = Some ''127.0.0.2'',
         chunk_end = Some ''127.0.0.2'', status = QUEUED, priority = 10, retry_count = 0,
         last_error = None, created_at = c1, updated_at = c1\<rparr>],
       scan_state_seq := 2\<rparr>"

text \<open>A table with a finished and a permanently failed chunk, used to run the operations.\<close>

definition demo_chunks :: database where
  "demo_chunks = empty_db\<lparr>scan_state :=
     [\<lparr>chunk_id = 1, cidr = ''10.0.0.0/24'', chunk_start = Some ''10.0.0.0'',
       chunk_end = Some ''10.0.0.255'', status = COMPLETED, priority = 10, retry_count = 1,
       last_error = Some ''boom'', created_at = 100, updated_at = 200\<rparr>,
      \<lparr>chunk_id = 2, cidr = ''10.0.1.0/24'', chunk_start = Some ''10.0.1.0'',
       chunk_end = Some ''10.0.1.255'', status = FAILED, priority = 3, retry_count = 4,
       last_error = Some ''Max Retries Exceeded'', created_at = 110, updated_at = 300\<rparr>],
     scan_state_seq := 2\<rparr>"

section \<open>Observations: the dataclass of \<open>execution/probes.py\<close>\<close>

record observation =
  obs_ip :: string
  obs_port :: int
  obs_protocol :: string
  obs_service :: string
  obs_latency_ms :: int
  obs_status :: string
  obs_timestamp :: timestamp
  obs_error_reason :: "string option"
  obs_banner :: "string option"
  obs_headers :: "string \<rightharpoonup> string"
  obs_body :: "string option"
  obs_cert_info :: "string \<rightharpoonup> string"
  obs_response_code :: "int option"

section \<open>The fingerprinter: \<open>execution/fingerprint.py\<close>\<close>

text \<open>
  \<open>re.search(regex, text, re.IGNORECASE)\<close> is a parameter \<open>re_search\<close> of the evaluator:
  it maps pattern text and subject text to \<open>None\<close> (no match) or to \<open>m.groups()\<close>, the
  tuple of captures, where a group that took no part in the match is \<open>None\<close>.
\<close>

type_synonym groups = "string option list"
type_synonym regex_search = "string \<Rightarrow> string \<Rightarrow> groups option"

text \<open>A \<open>FingerprintRule\<close> object. \<open>last_groups\<close> is its mutable attribute; it starts
  as \<open>None\<close> and is written by \<open>evaluate\<close> only.\<close>

record fingerprint_rule =
  rule_name :: string
  rule_type :: string
  rule_vendor :: "string option"
  rule_product :: "string option"
  rule_tags :: "string list"
  rule_evidence :: "(string \<times> string \<times> int) list"
  last_groups :: "groups option"

definition FingerprintRule ::
    "string \<Rightarrow> string \<Rightarrow> string option \<Rightarrow> string option \<Rightarrow> string list \<Rightarrow> fingerprint_rule" where
  "FingerprintRule name type vendor product tags =
     \<lparr>rule_name = name, rule_type = type, rule_vendor = vendor, rule_product = product,
      rule_tags = tags, rule_evidence = [], last_groups = None\<rparr>"

definition add_evidence :: "string \<Rightarrow> string \<Rightarrow> int \<Rightarrow> fingerprint_rule \<Rightarrow> fingerprint_rule" where
  "add_evidence location pattern weight rule =
     rule\<lparr>rule_evidence := rule_evidence rule @ [(location, pattern, weight)]\<rparr>"

text \<open>The helper \<open>check\<close>: no match on a missing or empty text; otherwise the pair
  \<open>(bool(m), m)\<close>. A match object is always truthy, so the flag is true exactly when the
  second component is a match.\<close>

definition check :: "regex_search \<Rightarrow> string option \<Rightarrow> string \<Rightarrow> bool \<times> groups option" where
  "check re_search text regex =
     (case text of
        None \<Rightarrow> (False, None)
      | Some t \<Rightarrow> if t = [] then (False, None)
                  else (case re_search regex t of None \<Rightarrow> (False, None) | Some g \<Rightarrow> (True, Some g)))"

definition lower_char :: "char \<Rightarrow> char" where
  "lower_char c =
     (case map_of (zip ''ABCDEFGHIJKLMNOPQRSTUVWXYZ'' ''abcdefghijklmnopqrstuvwxyz'') c of
        None \<Rightarrow> c | Some l \<Rightarrow> l)"

definition str_lower :: "string \<Rightarrow> string" where
  "str_lower s = map lower_char s"

text \<open>The location dispatch of the loop body: which text is searched with which
  pattern. \<open>location.split(":")[1]\<close> exists when the location starts with
  \<open>header:\<close>.\<close>

definition match_evidence ::
    "regex_search \<Rightarrow> observation \<Rightarrow> string \<Rightarrow> string \<Rightarrow> bool \<times> groups option" where
  "match_evidence re_search ob location pattern =
     (if location = ''banner'' then check re_search (obs_banner ob) pattern
      else if location = ''body'' then check re_search (obs_body ob) pattern
      else if take 7 location = ''header:'' then
        check re_search (obs_headers ob (str_lower (split_on CHR '':'' location ! 1))) pattern
      else if location = ''title'' then
        check re_search (obs_body ob) (''<title>.*'' @ pattern @ ''.*</title>'')
      else (False, None))"

text \<open>The loop of \<open>evaluate\<close> over the evidence, with its three pieces of state:
  \<open>total_score\<close>, \<open>details\<close> and the rule's \<open>last_groups\<close>.\<close>

fun evaluate_loop ::
    "regex_search \<Rightarrow> observation \<Rightarrow> (string \<times> string \<times> int) list \<Rightarrow>
     int \<times> string list \<times> groups option \<Rightarrow> int \<times> string list \<times> groups option" where
  "evaluate_loop re_search ob [] acc = acc"
| "evaluate_loop re_search ob ((location, pattern, weight) # rest) (total_score, details, lg) =
     (case match_evidence re_search ob location pattern of
        (matched, m) \<Rightarrow>
          if matched
          then evaluate_loop re_search ob rest
                 (total_score + weight, details @ [''Matched '' @ location],
                  (case m of None \<Rightarrow> lg | Some g \<Rightarrow> Some g))
          else evaluate_loop re_search ob rest (total_score, details, lg))"

text \<open>\<open>FingerprintRule.evaluate\<close>: the capped score, the details, and the rule object
  after the call.\<close>

definition evaluate ::
    "regex_search \<Rightarrow> fingerprint_rule \<Rightarrow> observation \<Rightarrow> (int \<times> string list) \<times> fingerprint_rule" where
  "evaluate re_search rule ob =
     (case evaluate_loop re_search ob (rule_evidence rule) (0, [], last_groups rule) of
        (total_score, details, lg) \<Rightarrow> ((min total_score 100, details), rule\<lparr>last_groups := lg\<rparr>))"

text \<open>The result dict of \<open>analyze\<close>.\<close>

record analysis_result =
  res_service_type :: string
  res_vendor :: string
  res_product :: string
  res_version :: "string option"
  res_tags :: "string list"
  res_confidence :: int
  res_evidence :: "string list"

text \<open>The loop of \<open>analyze\<close> over the rule objects: \<open>best_rule\<close>, \<open>best_score\<close>,
  \<open>best_details\<close>, and the rule objects as the calls of \<open>evaluate\<close> leave them.\<close>

fun analyze_loop ::
    "regex_search \<Rightarrow> observation \<Rightarrow> fingerprint_rule list \<Rightarrow>
     fingerprint_rule option \<times> int \<times> string list \<Rightarrow>
     (fingerprint_rule option \<times> int \<times> string list) \<times> fingerprint_rule list" where
  "analyze_loop re_search ob [] acc = (acc, [])"
| "analyze_loop re_search ob (rule # rest) (best_rule, best_score, best_details) =
     (case evaluate re_search rule ob of
        ((score, details), rule') \<Rightarrow>
          (case analyze_loop re_search ob rest
                  (if score > best_score then (Some rule', score, details)
                   else (best_rule, best_score, best_details)) of
             (final, rest') \<Rightarrow> (final, rule' # rest')))"

text \<open>\<open>x or "unknown"\<close> on an optional string.\<close>

definition or_unknown :: "string option \<Rightarrow> string" where
  "or_unknown v = (case v of None \<Rightarrow> ''unknown'' | Some t \<Rightarrow> if t = [] then ''unknown'' else t)"

definition unknown_result :: analysis_result where
  "unknown_result = \<lparr>res_service_type = ''unknown'', res_vendor = ''unknown'',
     res_product = ''unknown'', res_version = None, res_tags = [], res_confidence = 0,
     res_evidence = []\<rparr>"

text \<open>Version extraction: \<open>best_rule.last_groups\<close> must be a non-empty tuple; its first
  entry is the version.\<close>

definition first_group :: "groups option \<Rightarrow> string option" where
  "first_group lg = (case lg of Some (g # _) \<Rightarrow> g | _ \<Rightarrow> None)"

definition build_result :: "fingerprint_rule option \<times> int \<times> string list \<Rightarrow> analysis_result" where
  "build_result best =
     (case best of
        (Some best_rule, best_score, best_details) \<Rightarrow>
          if best_score > 0
          then \<lparr>res_service_type = rule_type best_rule,
                res_vendor = or_unknown (rule_vendor best_rule),
                res_product = or_unknown (rule_product best_rule),
                res_version = first_group (last_groups best_rule),
                res_tags = rule_tags best_rule,
                res_confidence = best_score,
                res_evidence = best_details\<rparr>
          else unknown_result
      | (None, _, _) \<Rightarrow> unknown_result)"

text \<open>\<open>analyze\<close> on the module's rule objects \<open>rules\<close>: the result, and the rule objects
  after the call (the state the next call starts from).\<close>

definition analyze ::
    "regex_search \<Rightarrow> fingerprint_rule list \<Rightarrow> observation \<Rightarrow> analysis_result \<times> fingerprint_rule list" where
  "analyze re_search rules ob =
     (case analyze_loop re_search ob rules (None, 0, []) of
        (best, rules') \<Rightarrow> (build_result best, rules'))"

subsection \<open>The built-in rules\<close>

text \<open>A backslash cannot stand in a string literal, so the pattern text is assembled
  with \<open>BS\<close>: \<open>''Apache/(['' @ BS @ ''d'' @ BS @ ''.]+)''\<close> is the source's
  \<^verbatim>\<open>r"Apache/([\d\.]+)"\<close>.\<close>

definition BS :: string where
  "BS = [CHR 0x5C]"

definition r_apache :: fingerprint_rule where
  "r_apache = (add_evidence ''header:server'' ''Apache'' 30
     (add_evidence ''banner'' (''Apache/(['' @ BS @ ''d'' @ BS @ ''.]+)'') 60
     (add_evidence ''banner'' ''Apache'' 40
     (FingerprintRule ''Apache'' ''http'' (Some ''Apache'') (Some ''HTTP Server'') []))))"

definition r_nginx :: fingerprint_rule where
  "r_nginx = (add_evidence ''header:server'' ''nginx'' 30
     (add_evidence ''banner'' (''nginx/(['' @ BS @ ''d'' @ BS @ ''.]+)'') 60
     (add_evidence ''banner'' ''nginx'' 40
     (FingerprintRule ''Nginx'' ''http'' (Some ''Nginx'') (Some ''Nginx'') []))))"

definition r_hik :: fingerprint_rule where
  "r_hik = (add_evidence ''header:server'' ''App-webs'' 30
     (add_evidence ''header:server'' ''Hikvision'' 50
     (add_evidence ''body'' ''<title>Hikvision</title>'' 60
     (add_evidence ''banner'' ''Hikvision'' 50
     (FingerprintRule ''Hikvision'' ''camera'' (Some ''Hikvision'') (Some ''IP Camera'')
        [''iot'', ''surveillance''])))))"

definition r_ssh :: fingerprint_rule where
  "r_ssh = (add_evidence ''banner'' (''OpenSSH_(['' @ BS @ ''w'' @ BS @ ''.]+)'') 50
     (add_evidence ''banner'' ''OpenSSH'' 50
     (FingerprintRule ''OpenSSH'' ''ssh'' (Some ''OpenBSD'') (Some ''OpenSSH'') [])))"

definition r_gen_http :: fingerprint_rule where
  "r_gen_http = (add_evidence ''body'' ''<html'' 40
     (add_evidence ''banner'' ''Server:'' 20
     (add_evidence ''banner'' (''HTTP/'' @ BS @ ''d'' @ BS @ ''.'' @ BS @ ''d'') 30
     (FingerprintRule ''Generic HTTP'' ''http'' (Some ''unknown'') (Some ''HTTP Server'') []))))"

definition r_gen_rtsp :: fingerprint_rule where
  "r_gen_rtsp = (add_evidence ''banner'' (''RTSP/'' @ BS @ ''d'' @ BS @ ''.'' @ BS @ ''d'') 50
     (FingerprintRule ''Generic RTSP'' ''rtsp'' (Some ''unknown'') (Some ''RTSP Server'') []))"

definition r_vnc :: fingerprint_rule where
  "r_vnc = (add_evidence ''banner'' (''^RFB '' @ BS @ ''d{3}'' @ BS @ ''.'' @ BS @ ''d{3}'') 100
     (FingerprintRule ''VNC'' ''vnc'' (Some ''RealVNC'') (Some ''VNC Server'') [''remote_desktop'']))"

definition r_ftp :: fingerprint_rule where
  "r_ftp = (add_evidence ''banner'' ''ProFTPD'' 90
     (add_evidence ''banner'' ''vsftpd'' 90
     (add_evidence ''banner'' ''^220.*FTP'' 80
     (FingerprintRule ''FTP'' ''ftp'' (Some ''unknown'') (Some ''FTP Server'') [''file_transfer'']))))"

definition r_caddy :: fingerprint_rule where
  "r_caddy = (add_evidence ''header:server'' ''Caddy'' 100
     (FingerprintRule ''Caddy'' ''http'' (Some ''Caddy'') (Some ''Caddy Web Server'') []))"

definition r_dahua :: fingerprint_rule where
  "r_dahua = (add_evidence ''body'' ''dahua'' 40
     (add_evidence ''header:server'' ''Dahua'' 60
     (add_evidence ''banner'' ''Dahua'' 60
     (FingerprintRule ''Dahua'' ''camera'' (Some ''Dahua'') (Some ''IP Camera'')
        [''iot'', ''surveillance'']))))"

definition r_ha :: fingerprint_rule where
  "r_ha = (add_evidence ''title'' ''Home Assistant'' 80
     (add_evidence ''body'' ''Home Assistant'' 80
     (FingerprintRule ''Home Assistant'' ''iot'' (Some ''Home Assistant'') (Some ''Home Assistant'')
        [''smart_home''])))"

text \<open>The module global \<open>RULES\<close>, in the order of the \<open>RULES.append\<close> calls.\<close>

definition RULES :: "fingerprint_rule list" where
  "RULES = [r_apache, r_nginx, r_hik, r_ssh, r_gen_http, r_gen_rtsp, r_vnc, r_ftp, r_caddy,
            r_dahua, r_ha]"

text \<open>An observation with only the fields set that the fingerprinter reads.\<close>

definition fp_obs :: "string option \<Rightarrow> (string \<rightharpoonup> string) \<Rightarrow> string option \<Rightarrow> observation" where
  "fp_obs banner headers body =
     \<lparr>obs_ip = ''192.0.2.1'', obs_port = 80, obs_protocol = ''tcp'', obs_service = ''http'',
      obs_latency_ms = 0, obs_status = ''open'', obs_timestamp = 0, obs_error_reason = None,
      obs_banner = banner, obs_headers = headers, obs_body = body, obs_cert_info = Map.empty,
      obs_response_code = None\<rparr>"

section \<open>A small regular-expression matcher\<close>

text \<open>
  An instance of \<open>re_search\<close> for running the rules on concrete observations: a
  backtracking matcher (leftmost match, greedy repetition, case-insensitive) for the
  pattern syntax that the built-in rules use: literal characters, \<open>.\<close>, \<open>^\<close>, the escapes
  \<^verbatim>\<open>\d\<close>, \<^verbatim>\<open>\w\<close> and escaped punctuation, classes \<open>[...]\<close> of these, groups
  \<open>(...)\<close>, and the quantifiers \<open>+\<close>, \<open>*\<close> and \<open>{n}\<close>. Pattern text outside this syntax
  is not read. No theorem about \<open>analyze\<close> for every observation depends on it.
\<close>

datatype cls = CChar char | CDigit | CWord | CAny

datatype rx = Eps | Atom "cls list" | Bol | Seq rx rx | Star rx | Group nat rx

definition char_code :: "char \<Rightarrow> nat" where
  "char_code c = of_char c"

definition lower_code :: "nat \<Rightarrow> nat" where
  "lower_code n = (if 65 \<le> n \<and> n \<le> 90 then n + 32 else n)"

definition is_digit :: "char \<Rightarrow> bool" where
  "is_digit c = (48 \<le> char_code c \<and> char_code c \<le> 57)"

definition is_word :: "char \<Rightarrow> bool" where
  "is_word c = (is_digit c \<or> c = CHR ''_'' \<or>
                (97 \<le> lower_code (char_code c) \<and> lower_code (char_code c) \<le> 122))"

fun cls_matches :: "cls \<Rightarrow> char \<Rightarrow> bool" where
  "cls_matches (CChar c) x = (lower_code (char_code x) = lower_code (char_code c))"
| "cls_matches CDigit x = is_digit x"
| "cls_matches CWord x = is_word x"
| "cls_matches CAny x = (char_code x \<noteq> 10)"

type_synonym mstate = "nat \<times> string \<times> (nat \<times> string) list"

primrec star_iter :: "(mstate \<Rightarrow> mstate list) \<Rightarrow> nat \<Rightarrow> mstate \<Rightarrow> mstate list" where
  "star_iter f 0 st = [st]"
| "star_iter f (Suc n) st =
     concat (map (\<lambda>st'. if length (fst (snd st')) < length (fst (snd st)) then star_iter f n st' else [])
               (f st)) @ [st]"

primrec ms :: "rx \<Rightarrow> mstate \<Rightarrow> mstate list" where
  "ms Eps = (\<lambda>st. [st])"
| "ms (Atom cs) = (\<lambda>st. case st of (pos, rest, caps) \<Rightarrow>
      (case rest of [] \<Rightarrow> []
       | x # r \<Rightarrow> if list_ex (\<lambda>c. cls_matches c x) cs then [(Suc pos, r, caps)] else []))"
| "ms Bol = (\<lambda>st. if fst st = 0 then [st] else [])"
| "ms (Seq a b) = (\<lambda>st. concat (map (ms b) (ms a st)))"
| "ms (Star a) = (\<lambda>st. star_iter (ms a) (length (fst (snd st))) st)"
| "ms (Group i a) = (\<lambda>st. map (\<lambda>st'. case st' of (pos', rest', caps') \<Rightarrow>
       (pos', rest', (i, take (length (fst (snd st)) - length rest') (fst (snd st))) # caps')) (ms a st))"

fun search_from :: "rx \<Rightarrow> nat \<Rightarrow> string \<Rightarrow> (nat \<times> string) list option" where
  "search_from r pos [] = (case ms r (pos, [], []) of [] \<Rightarrow> None | st # _ \<Rightarrow> Some (snd (snd st)))"
| "search_from r pos (x # s) =
     (case ms r (pos, x # s, []) of [] \<Rightarrow> search_from r (Suc pos) s | st # _ \<Rightarrow> Some (snd (snd st)))"

subsection \<open>Reading pattern text\<close>

definition escape_cls :: "char \<Rightarrow> cls option" where
  "escape_cls e = (if e = CHR ''d'' then Some CDigit else if e = CHR ''w'' then Some CWord
                   else if is_word e then None else Some (CChar e))"

fun parse_class :: "string \<Rightarrow> (cls list \<times> string) option" where
  "parse_class [] = None"
| "parse_class [c] = (if c = CHR '']'' then Some ([], []) else None)"
| "parse_class (c # e # s) =
     (if c = CHR '']'' then Some ([], e # s)
      else if c = CHR 0x5C then
        (case (escape_cls e, parse_class s) of
           (Some k, Some (ks, r)) \<Rightarrow> Some (k # ks, r) | _ \<Rightarrow> None)
      else if c = CHR ''-'' \<or> c = CHR ''^'' \<or> c = CHR ''['' then None
      else (case parse_class (e # s) of Some (ks, r) \<Rightarrow> Some (CChar c # ks, r) | None \<Rightarrow> None))"

primrec repeat_rx :: "nat \<Rightarrow> rx \<Rightarrow> rx" where
  "repeat_rx 0 r = Eps"
| "repeat_rx (Suc n) r = Seq r (repeat_rx n r)"

text \<open>A quantifier after an atom: \<open>+\<close>, \<open>*\<close> or \<open>{n}\<close> with one digit.\<close>

fun quantify :: "rx \<Rightarrow> string \<Rightarrow> (rx \<times> string) option" where
  "quantify a (q # s) =
     (if q = CHR ''+'' then Some (Seq a (Star a), s)
      else if q = CHR ''*'' then Some (Star a, s)
      else if q = CHR ''?'' \<or> q = CHR ''|'' \<or> q = CHR ''$'' then None
      else if q = CHR ''{'' then
        (case s of d # c # s' \<Rightarrow>
           if is_digit d \<and> c = CHR ''}'' then Some (repeat_rx (char_code d - 48) a, s') else None
         | _ \<Rightarrow> None)
      else Some (a, q # s))"
| "quantify a [] = Some (a, [])"

fun parse_seq :: "nat \<Rightarrow> nat \<Rightarrow> string \<Rightarrow> (rx \<times> nat \<times> string) option" where
  "parse_seq 0 g s = None"
| "parse_seq (Suc n) g [] = Some (Eps, g, [])"
| "parse_seq (Suc n) g (c # s) =
     (if c = CHR '')'' then Some (Eps, g, c # s)
      else
        (case (if c = CHR ''('' then
                 (case parse_seq n (Suc g) s of
                    Some (r, g', p # s') \<Rightarrow> if p = CHR '')'' then Some (Group (Suc g) r, g', s') else None
                  | _ \<Rightarrow> None)
               else if c = CHR ''['' then
                 (case parse_class s of Some (ks, s') \<Rightarrow> Some (Atom ks, g, s') | None \<Rightarrow> None)
               else if c = CHR 0x5C then
                 (case s of [] \<Rightarrow> None
                  | e # s' \<Rightarrow> (case escape_cls e of Some k \<Rightarrow> Some (Atom [k], g, s') | None \<Rightarrow> None))
               else if c = CHR ''.'' then Some (Atom [CAny], g, s)
               else if c = CHR ''^'' then Some (Bol, g, s)
               else if c = CHR ''+'' \<or> c = CHR ''*'' \<or> c = CHR ''?'' \<or> c = CHR ''{'' \<or>
                       c = CHR ''|'' \<or> c = CHR ''$'' then None
               else Some (Atom [CChar c], g, s)) of
           None \<Rightarrow> None
         | Some (a, g', s') \<Rightarrow>
             (case quantify a s' of
                None \<Rightarrow> None
              | Some (aq, s'') \<Rightarrow>
                  (case parse_seq n g' s'' of
                     None \<Rightarrow> None
                   | Some (tl_rx, g'', rest) \<Rightarrow> Some (Seq aq tl_rx, g'', rest)))))"

text \<open>\<open>re.search(pattern, text, re.IGNORECASE)\<close> on the fragment above: \<open>None\<close> for no
  match, otherwise \<open>m.groups()\<close>.\<close>

definition mini_search :: "string \<Rightarrow> string \<Rightarrow> string option list option" where
  "mini_search p t =
     (case parse_seq (Suc (length p)) 0 p of
        Some (r, g, []) \<Rightarrow>
          (case search_from r 0 t of
             None \<Rightarrow> None
           | Some caps \<Rightarrow> Some (map (\<lambda>i. map_of caps i) [1 ..< Suc g]))
      | _ \<Rightarrow> None)"

section \<open>The probes: \<open>execution/probes.py\<close>\<close>

text \<open>
  Bytes and text are lists of 8-bit characters. The exceptions that the probes meet
  are values of \<open>exn\<close>: a class and the message that \<open>str(e)\<close> returns. \<open>OSError\<close> stands
  for \<open>OSError\<close> and those of its subclasses that have no constructor of their own here,
  \<open>Exception\<close> for the class itself; every class derives from \<open>Exception\<close>.
\<close>

type_synonym bytes = string

datatype exn_class = TimeoutError | ConnectionRefusedError | OSError | OverflowError
  | NameError | UnicodeDecodeError | Exception

datatype exn = Exn exn_class string

fun class_of :: "exn \<Rightarrow> exn_class" where
  "class_of (Exn c msg) = c"

fun str_exn :: "exn \<Rightarrow> string" where
  "str_exn (Exn c msg) = msg"

text \<open>\<open>issubclass(c, OSError)\<close>.\<close>

fun is_OSError :: "exn_class \<Rightarrow> bool" where
  "is_OSError TimeoutError = True"
| "is_OSError ConnectionRefusedError = True"
| "is_OSError OSError = True"
| "is_OSError OverflowError = False"
| "is_OSError NameError = False"
| "is_OSError UnicodeDecodeError = False"
| "is_OSError Exception = False"

text \<open>
  The world a probe runs in: \<open>script\<close> holds the outcome of each awaited operation on
  the network, in the order in which the probe awaits them (the connection, every
  \<open>read\<close>, \<open>drain\<close> and \<open>wait_closed\<close>): the exception it raises, or the bytes it returns
  (the empty bytes for an operation that returns nothing). An operation beyond the
  script succeeds with no bytes. A timeout of \<open>asyncio.wait_for\<close> is the outcome
  \<open>Inl (Exn TimeoutError [])\<close>. \<open>clock_reads\<close> counts the calls of \<open>time.time()\<close>, and
  \<open>sent\<close> collects what \<open>writer.write\<close> was given.
\<close>

record world =
  script :: "(exn + bytes) list"
  clock_reads :: nat
  sent :: "bytes list"

type_synonym 'a io = "world \<Rightarrow> (exn + 'a) \<times> world"

definition io_return :: "'a \<Rightarrow> 'a io" where
  "io_return x w = (Inr x, w)"

definition io_raise :: "exn \<Rightarrow> 'a io" where
  "io_raise e w = (Inl e, w)"

definition io_bind :: "'a io \<Rightarrow> ('a \<Rightarrow> 'b io) \<Rightarrow> 'b io" where
  "io_bind m f w = (case m w of (Inl e, w') \<Rightarrow> (Inl e, w') | (Inr x, w') \<Rightarrow> f x w')"

text \<open>\<open>try: m except ... as e: h e\<close>, where \<open>h\<close> raises again what its clauses do not
  catch.\<close>

definition io_try :: "'a io \<Rightarrow> (exn \<Rightarrow> 'a io) \<Rightarrow> 'a io" where
  "io_try m h w = (case m w of (Inl e, w') \<Rightarrow> h e w' | (Inr x, w') \<Rightarrow> (Inr x, w'))"

definition await :: "bytes io" where
  "await w = (case script w of [] \<Rightarrow> (Inr [], w) | r # rs \<Rightarrow> (r, w\<lparr>script := rs\<rparr>))"

definition open_connection :: "unit io" where
  "open_connection = io_bind await (\<lambda>_. io_return ())"

text \<open>\<open>reader.read(n)\<close> returns at most \<open>n\<close> bytes.\<close>

definition reader_read :: "nat \<Rightarrow> bytes io" where
  "reader_read n = io_bind await (\<lambda>data. io_return (take n data))"

definition writer_write :: "bytes \<Rightarrow> unit io" where
  "writer_write data w = (Inr (), w\<lparr>sent := sent w @ [data]\<rparr>)"

definition writer_drain :: "unit io" where
  "writer_drain = io_bind await (\<lambda>_. io_return ())"

definition writer_wait_closed :: "unit io" where
  "writer_wait_closed = io_bind await (\<lambda>_. io_return ())"

text \<open>
  Library functions that are parameters of the probes: the clock behind \<open>time.time()\<close>
  (its \<open>n\<close>-th reading, in whole seconds), \<open>bytes.decode('utf-8', errors='ignore')\<close>,
  \<open>bytes.decode()\<close>, which may raise, \<open>str.encode()\<close>, and \<open>int(text)\<close>, where \<open>None\<close> is its
  \<open>ValueError\<close>.
\<close>

record library =
  clock :: "nat \<Rightarrow> int"
  decode_ignore :: "bytes \<Rightarrow> string"
  decode_strict :: "bytes \<Rightarrow> exn + string"
  encode :: "string \<Rightarrow> bytes"
  int_of_str :: "string \<Rightarrow> int option"

definition time_time :: "library \<Rightarrow> int io" where
  "time_time lib w = (Inr (clock lib (clock_reads w)), w\<lparr>clock_reads := Suc (clock_reads w)\<rparr>)"

text \<open>The constructor of \<open>Observation\<close> with the six positional fields; \<open>timestamp\<close> is
  filled by \<open>time.time\<close> and the other fields have their defaults.\<close>

definition Observation ::
    "library \<Rightarrow> string \<Rightarrow> int \<Rightarrow> string \<Rightarrow> string \<Rightarrow> int \<Rightarrow> string \<Rightarrow> observation io" where
  "Observation lib ip port protocol service latency_ms st =
     io_bind (time_time lib) (\<lambda>ts. io_return
       \<lparr>obs_ip = ip, obs_port = port, obs_protocol = protocol, obs_service = service,
        obs_latency_ms = latency_ms, obs_status = st, obs_timestamp = ts,
        obs_error_reason = None, obs_banner = None, obs_headers = Map.empty, obs_body = None,
        obs_cert_info = Map.empty, obs_response_code = None\<rparr>)"

subsection \<open>Text functions\<close>

text \<open>\<open>str.strip()\<close>: the whitespace characters among the first 256 code points.\<close>

definition is_space :: "char \<Rightarrow> bool" where
  "is_space c = (of_char c \<in> set [9, 10, 11, 12, 13, 28, 29, 30, 31, 32, 133, 160 :: nat])"

definition strip :: "string \<Rightarrow> string" where
  "strip s = rev (dropWhile is_space (rev (dropWhile is_space s)))"

definition startswith :: "string \<Rightarrow> string \<Rightarrow> bool" where
  "startswith s p = (take (length p) s = p)"

text \<open>\<open>p in s\<close>.\<close>

fun contains :: "string \<Rightarrow> string \<Rightarrow> bool" where
  "contains p [] = (p = [])"
| "contains p (c # s) = (startswith (c # s) p \<or> contains p s)"

text \<open>\<open>s.split(sep, 1)\<close> and \<open>s.split(sep)\<close> for a non-empty \<open>sep\<close>.\<close>

fun partition_at :: "string \<Rightarrow> string \<Rightarrow> (string \<times> string) option" where
  "partition_at sep [] = None"
| "partition_at sep (c # s) =
     (if startswith (c # s) sep then Some ([], drop (length sep) (c # s))
      else (case partition_at sep s of None \<Rightarrow> None | Some (a, b) \<Rightarrow> Some (c # a, b)))"

definition split1 :: "string \<Rightarrow> string \<Rightarrow> string list" where
  "split1 sep s = (case partition_at sep s of None \<Rightarrow> [s] | Some (a, b) \<Rightarrow> [a, b])"

fun split_str_from :: "string \<Rightarrow> nat \<Rightarrow> string \<Rightarrow> string list" where
  "split_str_from sep skip [] = [[]]"
| "split_str_from sep skip (c # s) =
     (if 0 < skip then split_str_from sep (skip - 1) s
      else if startswith (c # s) sep then [] # split_str_from sep (length sep - 1) s
      else (case split_str_from sep 0 s of [] \<Rightarrow> [[c]] | w # ws \<Rightarrow> (c # w) # ws))"

definition split_str :: "string \<Rightarrow> string \<Rightarrow> string list" where
  "split_str sep s = split_str_from sep 0 s"

text \<open>\<open>sep.join(parts)\<close>.\<close>

fun join :: "string \<Rightarrow> string list \<Rightarrow> string" where
  "join sep [] = []"
| "join sep [p] = p"
| "join sep (p # q # ps) = p @ sep @ join sep (q # ps)"

definition upper_char :: "char \<Rightarrow> char" where
  "upper_char c =
     (case map_of (zip ''abcdefghijklmnopqrstuvwxyz'' ''ABCDEFGHIJKLMNOPQRSTUVWXYZ'') c of
        None \<Rightarrow> c | Some u \<Rightarrow> u)"

text \<open>\<open>str.capitalize()\<close> on ASCII text.\<close>

definition capitalize :: "string \<Rightarrow> string" where
  "capitalize s = (case s of [] \<Rightarrow> [] | c # cs \<Rightarrow> upper_char c # str_lower cs)"

definition str_int :: "int \<Rightarrow> string" where
  "str_int i = (if i < 0 then ''-'' @ str_nat (nat (- i)) else str_nat (nat i))"

definition CRLF :: string where
  "CRLF = [CHR 0x0D, CHR 0x0A]"

definition QUOTE :: string where
  "QUOTE = [CHR 0x27]"

subsection \<open>The module's names\<close>

text \<open>
  The names bound in the module when a probe runs: those of the five import lines at
  its top and of its classes and function. \<open>load_global\<close> is the lookup of a name that
  is not local: a name that is neither here nor a builtin raises \<open>NameError\<close>.
\<close>

definition module_globals :: "string list" where
  "module_globals = [''asyncio'', ''time'', ''ssl'', ''dataclass'', ''field'', ''Optional'', ''Dict'',
     ''Observation'', ''BaseProbe'', ''TCPProbe'', ''HTTPProbe'', ''VNCProbe'', ''FTPProbe'',
     ''SSHProbe'', ''RTSPProbe'', ''TelnetProbe'', ''MQTTProbe'', ''get_probe'']"

definition load_global :: "string \<Rightarrow> unit io" where
  "load_global name =
     (if name \<in> set module_globals then io_return ()
      else io_raise (Exn NameError (''name '' @ QUOTE @ name @ QUOTE @ '' is not defined'')))"

text \<open>\<^verbatim>\<open>re.sub(r'[^\x20-\x7E]', '', s)\<close>, once \<open>re\<close> is found.\<close>

definition re_sub_unprintable :: "string \<Rightarrow> string" where
  "re_sub_unprintable s = filter (\<lambda>c. 32 \<le> (of_char c :: nat) \<and> (of_char c :: nat) \<le> 126) s"

subsection \<open>The probes\<close>

text \<open>The \<open>except Exception as e\<close> clause that the protocol probes share: an
  observation with status \<open>closed\<close> and \<open>str(e)\<close> as the reason.\<close>

definition closed_observation :: "library \<Rightarrow> string \<Rightarrow> int \<Rightarrow> string \<Rightarrow> int \<Rightarrow> exn \<Rightarrow> observation io" where
  "closed_observation lib ip port service start_time e =
     io_bind (time_time lib) (\<lambda>t.
     io_bind (Observation lib ip port ''tcp'' service ((t - start_time) * 1000) ''closed'') (\<lambda>ob.
     io_return (ob\<lparr>obs_error_reason := Some (str_exn e)\<rparr>)))"

text \<open>\<open>TCPProbe.run\<close>. The inner \<open>try\<close> swallows every exception of the banner read; the
  outer clauses catch \<open>asyncio.TimeoutError\<close>, \<open>ConnectionRefusedError\<close> and \<open>OSError\<close>, in
  this order, and any other exception leaves \<open>run\<close>.\<close>

definition TCPProbe_run :: "library \<Rightarrow> int \<Rightarrow> string \<Rightarrow> observation io" where
  "TCPProbe_run lib port ip_address =
     io_bind (time_time lib) (\<lambda>start_time.
     io_try
       (io_bind open_connection (\<lambda>_.
        io_bind (time_time lib) (\<lambda>t.
        io_bind (io_try (io_bind (reader_read 1024) (\<lambda>data. io_return (strip (decode_ignore lib data))))
                        (\<lambda>e. io_return [])) (\<lambda>banner.
        io_bind writer_wait_closed (\<lambda>_.
        io_bind (Observation lib ip_address port ''tcp'' ''tcp'' ((t - start_time) * 1000) ''open'') (\<lambda>ob.
        io_return (ob\<lparr>obs_banner := Some banner\<rparr>)))))))
       (\<lambda>e.
          if class_of e = TimeoutError then
            io_bind (time_time lib) (\<lambda>t.
            io_bind (Observation lib ip_address port ''tcp'' ''tcp'' ((t - start_time) * 1000) ''timeout'') (\<lambda>ob.
            io_return (ob\<lparr>obs_error_reason := Some ''Timeout''\<rparr>)))
          else if class_of e = ConnectionRefusedError then
            io_bind (time_time lib) (\<lambda>t.
            io_bind (Observation lib ip_address port ''tcp'' ''tcp'' ((t - start_time) * 1000) ''closed'') (\<lambda>ob.
            io_return (ob\<lparr>obs_error_reason := Some ''Refused''\<rparr>)))
          else if is_OSError (class_of e) then
            io_bind (time_time lib) (\<lambda>t.
            io_bind (Observation lib ip_address port ''tcp'' ''tcp'' ((t - start_time) * 1000) ''error'') (\<lambda>ob.
            io_return (ob\<lparr>obs_error_reason := Some (str_exn e)\<rparr>)))
          else io_raise e))"

text \<open>The header lines of \<open>HTTPProbe.run\<close>: \<open>headers[k.lower()] = v\<close> for every line with
  \<open>": "\<close>.\<close>

definition parse_headers :: "string list \<Rightarrow> (string \<rightharpoonup> string)" where
  "parse_headers header_lines =
     fold (\<lambda>line headers.
             if contains '': '' line
             then headers(str_lower (split1 '': '' line ! 0) \<mapsto> split1 '': '' line ! 1)
             else headers)
          header_lines Map.empty"

text \<open>The status line: \<open>int(status_line.split(" ")[1])\<close> if there is a space, and
  \<open>None\<close> on its \<open>ValueError\<close>.\<close>

definition parse_status_code :: "library \<Rightarrow> string \<Rightarrow> int option" where
  "parse_status_code lib status_line =
     (if contains '' '' status_line then int_of_str lib (split_on CHR '' '' status_line ! 1) else None)"

definition HTTPProbe_run :: "library \<Rightarrow> int \<Rightarrow> string \<Rightarrow> observation io" where
  "HTTPProbe_run lib port ip_address =
     io_bind (time_time lib) (\<lambda>start_time.
     io_try
       (let ssl_ctx = (port \<in> set [443, 8443]) in
        io_bind open_connection (\<lambda>_.
        io_bind (writer_write (encode lib (''GET / HTTP/1.1'' @ CRLF @ ''Host: '' @ ip_address @ CRLF @
                   ''User-Agent: DeepFocus/1.0'' @ CRLF @ ''Connection: close'' @ CRLF @ CRLF))) (\<lambda>_.
        io_bind writer_drain (\<lambda>_.
        io_bind (reader_read 4096) (\<lambda>data.
        io_bind (time_time lib) (\<lambda>t.
        io_bind writer_wait_closed (\<lambda>_.
        let raw_response = decode_ignore lib data;
            parts = split1 (CRLF @ CRLF) raw_response;
            head_part = parts ! 0;
            body = (if 1 < length parts then Some (parts ! 1) else None);
            lines = split_str CRLF head_part
        in io_bind (Observation lib ip_address port ''tcp'' (if ssl_ctx then ''https'' else ''http'')
                      ((t - start_time) * 1000) ''open'') (\<lambda>ob.
           io_return (ob\<lparr>obs_banner := Some head_part, obs_headers := parse_headers (tl lines),
                         obs_body := body,
                         obs_response_code := parse_status_code lib (lines ! 0)\<rparr>)))))))))
       (closed_observation lib ip_address port ''http'' start_time))"

text \<open>The name of a VNC security type.\<close>

definition vnc_type_desc :: "char \<Rightarrow> string" where
  "vnc_type_desc b =
     (if (of_char b :: nat) = 1 then ''None (OPEN)''
      else if (of_char b :: nat) = 2 then ''VNC Auth''
      else if (of_char b :: nat) = 16 then ''TightVNC''
      else if (of_char b :: nat) = 19 then ''VeNCrypt (TLS)''
      else ''Type('' @ str_nat (of_char b) @ '')'')"

text \<open>\<open>bytes.decode()\<close> as a step that may raise.\<close>

definition decode_or_raise :: "library \<Rightarrow> bytes \<Rightarrow> string io" where
  "decode_or_raise lib data = (case decode_strict lib data of Inl e \<Rightarrow> io_raise e | Inr s \<Rightarrow> io_return s)"

definition VNCProbe_run :: "library \<Rightarrow> int \<Rightarrow> string \<Rightarrow> observation io" where
  "VNCProbe_run lib port ip_address =
     io_bind (time_time lib) (\<lambda>start_time.
     io_try
       (io_bind open_connection (\<lambda>_.
        io_bind (time_time lib) (\<lambda>t.
        io_bind (reader_read 12) (\<lambda>server_version.
        io_bind (writer_write server_version) (\<lambda>_.
        io_bind writer_drain (\<lambda>_.
        io_bind (reader_read 1) (\<lambda>sec_types_len_byte.
        if sec_types_len_byte = [] then io_raise (Exn Exception ''Empty security payload'')
        else
          io_bind
            (if (of_char (sec_types_len_byte ! 0) :: nat) = 0 then
               io_bind (reader_read 100) (\<lambda>reason.
               io_bind (decode_or_raise lib server_version) (\<lambda>v.
               io_bind (decode_or_raise lib reason) (\<lambda>r.
               io_return (strip v @ '' (Connect Failed: '' @ strip r @ '')''))))
             else
               io_bind (reader_read (of_char (sec_types_len_byte ! 0))) (\<lambda>sec_types.
               io_bind (decode_or_raise lib server_version) (\<lambda>v.
               io_return (strip v @ '' | Auth: ['' @ join '', '' (map vnc_type_desc sec_types) @ '']''))))
            (\<lambda>banner.
          io_bind writer_wait_closed (\<lambda>_.
          io_bind (Observation lib ip_address port ''tcp'' ''vnc'' ((t - start_time) * 1000) ''open'') (\<lambda>ob.
          io_return (ob\<lparr>obs_banner := Some banner\<rparr>)))))))))))
       (closed_observation lib ip_address port ''vnc'' start_time))"

text \<open>The anonymous login of \<open>FTPProbe.run\<close> after a \<open>220\<close> greeting; its value is
  \<open>auth_status\<close>.\<close>

definition ftp_login :: "library \<Rightarrow> string io" where
  "ftp_login lib =
     io_bind (writer_write (''USER anonymous'' @ CRLF)) (\<lambda>_.
     io_bind writer_drain (\<lambda>_.
     io_bind (reader_read 1024) (\<lambda>resp_user.
     let resp_user_str = strip (decode_ignore lib resp_user) in
     if startswith resp_user_str ''331'' then
       io_bind (writer_write (''PASS anonymous@'' @ CRLF)) (\<lambda>_.
       io_bind writer_drain (\<lambda>_.
       io_bind (reader_read 1024) (\<lambda>resp_pass.
       let resp_pass_str = strip (decode_ignore lib resp_pass) in
       io_return
         (if startswith resp_pass_str ''230'' then ''Anonymous Access ALLOWED''
          else if startswith resp_pass_str ''530'' then ''Anonymous Access DENIED (530)''
          else ''Login Failed Code: '' @ take 3 resp_pass_str))))
     else io_return
       (if startswith resp_user_str ''230'' then ''Anonymous Access ALLOWED (No Pass)''
        else if startswith resp_user_str ''530'' then ''Anonymous User Rejected''
        else if startswith resp_user_str ''500'' \<or> contains ''auth'' (str_lower resp_user_str)
          then ''Encryption Required (AUTH TLS)''
        else ''Handshake Error: '' @ take 3 resp_user_str))))"

definition FTPProbe_run :: "library \<Rightarrow> int \<Rightarrow> string \<Rightarrow> observation io" where
  "FTPProbe_run lib port ip_address =
     io_bind (time_time lib) (\<lambda>start_time.
     io_try
       (io_bind open_connection (\<lambda>_.
        io_bind (time_time lib) (\<lambda>t.
        io_bind (reader_read 1024) (\<lambda>banner.
        let banner_str = strip (decode_ignore lib banner) in
        io_bind (if startswith banner_str ''220'' then ftp_login lib else io_return ''Unknown'') (\<lambda>auth_status.
        io_bind writer_wait_closed (\<lambda>_.
        io_bind (Observation lib ip_address port ''tcp'' ''ftp'' ((t - start_time) * 1000) ''open'') (\<lambda>ob.
        io_return (ob\<lparr>obs_banner := Some (banner_str @ '' | Auth: ['' @ auth_status @ '']'')\<rparr>))))))))
       (closed_observation lib ip_address port ''ftp'' start_time))"

definition ssh_device_info :: "string \<Rightarrow> string" where
  "ssh_device_info banner_lower =
     (if contains ''dropbear'' banner_lower then ''Dropbear (Embedded/IoT)''
      else if contains ''cisco'' banner_lower then ''Cisco IOS''
      else if contains ''mikrotik'' banner_lower then ''MikroTik Router''
      else if contains ''openssh'' banner_lower then ''OpenSSH''
      else ''SSH Service'')"

definition SSHProbe_run :: "library \<Rightarrow> int \<Rightarrow> string \<Rightarrow> observation io" where
  "SSHProbe_run lib port ip_address =
     io_bind (time_time lib) (\<lambda>start_time.
     io_try
       (io_bind open_connection (\<lambda>_.
        io_bind (time_time lib) (\<lambda>t.
        io_bind (reader_read 256) (\<lambda>server_banner.
        let banner_str = strip (decode_ignore lib server_banner) in
        io_bind writer_wait_closed (\<lambda>_.
        io_bind (Observation lib ip_address port ''tcp'' ''ssh'' ((t - start_time) * 1000) ''open'') (\<lambda>ob.
        io_return (ob\<lparr>obs_banner :=
          Some (banner_str @ '' | Device: ['' @ ssh_device_info (str_lower banner_str) @ '']'')\<rparr>)))))))
       (closed_observation lib ip_address port ''ssh'' start_time))"

definition rtsp_auth_status :: "string \<Rightarrow> string" where
  "rtsp_auth_status response_str =
     (if contains ''RTSP/1.0 200'' response_str then ''No Auth Required (OPEN)''
      else if contains ''RTSP/1.0 401'' response_str then ''Auth Required''
      else if contains ''RTSP/1.0 403'' response_str then ''Forbidden''
      else ''Unknown'')"

text \<open>The first brand that occurs in the response, capitalized.\<close>

definition rtsp_camera_brand :: "string \<Rightarrow> string" where
  "rtsp_camera_brand resp_lower =
     (case filter (\<lambda>brand. contains brand resp_lower)
             [''hikvision'', ''dahua'', ''axis'', ''foscam'', ''amcrest'', ''reolink'', ''ubiquiti''] of
        [] \<Rightarrow> ''RTSP Camera''
      | brand # _ \<Rightarrow> capitalize brand)"

definition RTSPProbe_run :: "library \<Rightarrow> int \<Rightarrow> string \<Rightarrow> observation io" where
  "RTSPProbe_run lib port ip_address =
     io_bind (time_time lib) (\<lambda>start_time.
     io_try
       (io_bind open_connection (\<lambda>_.
        io_bind (time_time lib) (\<lambda>t.
        io_bind (writer_write (encode lib (''OPTIONS rtsp://'' @ ip_address @ '':'' @ str_int port @
                   ''/ RTSP/1.0'' @ CRLF @ ''CSeq: 1'' @ CRLF @ ''User-Agent: DeepFocus'' @ CRLF @ CRLF))) (\<lambda>_.
        io_bind writer_drain (\<lambda>_.
        io_bind (reader_read 1024) (\<lambda>response.
        let response_str = decode_ignore lib response in
        io_bind writer_wait_closed (\<lambda>_.
        io_bind (Observation lib ip_address port ''tcp'' ''rtsp'' ((t - start_time) * 1000) ''open'') (\<lambda>ob.
        io_return (ob\<lparr>obs_banner :=
          Some (rtsp_camera_brand (str_lower response_str) @ '' | Auth: ['' @
                rtsp_auth_status response_str @ '']'')\<rparr>)))))))))
       (closed_observation lib ip_address port ''rtsp'' start_time))"

text \<open>\<open>TelnetProbe.run\<close>. The call \<open>re.sub\<close> looks up the global name \<open>re\<close>.\<close>

definition TelnetProbe_run :: "library \<Rightarrow> int \<Rightarrow> string \<Rightarrow> observation io" where
  "TelnetProbe_run lib port ip_address =
     io_bind (time_time lib) (\<lambda>start_time.
     io_try
       (io_bind open_connection (\<lambda>_.
        io_bind (time_time lib) (\<lambda>t.
        io_bind (reader_read 1024) (\<lambda>banner.
        io_bind (load_global ''re'') (\<lambda>_.
        let banner_str = re_sub_unprintable (strip (decode_ignore lib banner)) in
        io_bind writer_wait_closed (\<lambda>_.
        io_bind (Observation lib ip_address port ''tcp'' ''telnet'' ((t - start_time) * 1000) ''open'') (\<lambda>ob.
        io_return (ob\<lparr>obs_banner := Some banner_str\<rparr>))))))))
       (closed_observation lib ip_address port ''telnet'' start_time))"

text \<open>The CONNECT packet \<open>bytes.fromhex("101000044D5154540402003C000474657374")\<close>.\<close>

definition connect_packet :: bytes where
  "connect_packet = [CHR 0x10, CHR 0x10, CHR 0x00, CHR 0x04, CHR 0x4D, CHR 0x51, CHR 0x54, CHR 0x54,
     CHR 0x04, CHR 0x02, CHR 0x00, CHR 0x3C, CHR 0x00, CHR 0x04, CHR 0x74, CHR 0x65, CHR 0x73, CHR 0x74]"

definition mqtt_status_msg :: "bytes \<Rightarrow> string" where
  "mqtt_status_msg response =
     (if 4 \<le> length response \<and> (of_char (response ! 0) :: nat) = 32 then
        (let return_code = (of_char (response ! 3) :: nat) in
         if return_code = 0 then ''Access ALLOWED (No Auth)''
         else if return_code = 1 then ''Refused: Protocol Version''
         else if return_code = 2 then ''Refused: ID Rejected''
         else if return_code = 3 then ''Refused: Server Unavailable''
         else if return_code = 4 then ''Refused: Bad User/Pass''
         else if return_code = 5 then ''Refused: Not Authorized''
         else ''Refused: Code '' @ str_nat return_code)
      else ''Unknown'')"

definition MQTTProbe_run :: "library \<Rightarrow> int \<Rightarrow> string \<Rightarrow> observation io" where
  "MQTTProbe_run lib port ip_address =
     io_bind (time_time lib) (\<lambda>start_time.
     io_try
       (io_bind open_connection (\<lambda>_.
        io_bind (time_time lib) (\<lambda>t.
        io_bind (writer_write connect_packet) (\<lambda>_.
        io_bind writer_drain (\<lambda>_.
        io_bind (reader_read 4) (\<lambda>response.
        io_bind writer_wait_closed (\<lambda>_.
        io_bind (Observation lib ip_address port ''tcp'' ''mqtt'' ((t - start_time) * 1000) ''open'') (\<lambda>ob.
        io_return (ob\<lparr>obs_banner := Some (mqtt_status_msg response)\<rparr>)))))))))
       (closed_observation lib ip_address port ''mqtt'' start_time))"

text \<open>The probe objects, \<open>get_probe\<close>, and the method \<open>run\<close> of each class.\<close>

datatype probe = TCPProbe int | HTTPProbe int | VNCProbe int | FTPProbe int | SSHProbe int
  | RTSPProbe int | TelnetProbe int | MQTTProbe int

definition get_probe :: "int \<Rightarrow> probe" where
  "get_probe port =
     (if port \<in> set [80, 8080, 8000, 443, 8443] then HTTPProbe port
      else if port = 5900 then VNCProbe port
      else if port = 21 then FTPProbe port
      else if port = 22 then SSHProbe port
      else if port = 554 then RTSPProbe port
      else if port = 23 then TelnetProbe port
      else if port = 1883 then MQTTProbe port
      else TCPProbe port)"

fun run :: "library \<Rightarrow> probe \<Rightarrow> string \<Rightarrow> observation io" where
  "run lib (TCPProbe port) ip_address = TCPProbe_run lib port ip_address"
| "run lib (HTTPProbe port) ip_address = HTTPProbe_run lib port ip_address"
| "run lib (VNCProbe port) ip_address = VNCProbe_run lib port ip_address"
| "run lib (FTPProbe port) ip_address = FTPProbe_run lib port ip_address"
| "run lib (SSHProbe port) ip_address = SSHProbe_run lib port ip_address"
| "run lib (RTSPProbe port) ip_address = RTSPProbe_run lib port ip_address"
| "run lib (TelnetProbe port) ip_address = TelnetProbe_run lib port ip_address"
| "run lib (MQTTProbe port) ip_address = MQTTProbe_run lib port ip_address"

subsection \<open>A library for running the probes on ASCII traffic\<close>

text \<open>
  An instance of the library parameters: the clock reads \<open>0, 1, 2, ...\<close>, decoding and
  encoding leave the characters as they are, which is what the codecs do to ASCII
  bytes and text, and \<open>int\<close> reads a run of decimal digits. No theorem about every
  library depends on it.
\<close>

definition ascii_lib :: library where
  "ascii_lib = \<lparr>clock = (\<lambda>n. int n), decode_ignore = (\<lambda>data. data),
     decode_strict = (\<lambda>data. Inr data), encode = (\<lambda>s. s),
     int_of_str = (\<lambda>s. map_option int (parse_digits s))\<rparr>"

text \<open>A world in which the awaited operations have the outcomes \<open>outcomes\<close>.\<close>

definition world_of :: "(exn + bytes) list \<Rightarrow> world" where
  "world_of outcomes = \<lparr>script = outcomes, clock_reads = 0, sent = []\<rparr>"

section \<open>Scores and versions in the words of the specification\<close>

text \<open>
  The specification speaks of the matching evidence of a rule, of the sum of its
  weights capped at 100, and of the last matching evidence. These definitions say that
  in terms of \<open>match_evidence\<close>; the theorems relate them to \<open>evaluate\<close> and \<open>analyze\<close>.
\<close>

text \<open>Whether an evidence entry matches, and the capped sum of the weights that do.\<close>

definition evidence_matches :: "regex_search \<Rightarrow> observation \<Rightarrow> string \<times> string \<times> int \<Rightarrow> bool" where
  "evidence_matches re_search ob e = (case e of (location, pattern, weight) \<Rightarrow>
     fst (match_evidence re_search ob location pattern))"

definition rule_score :: "regex_search \<Rightarrow> observation \<Rightarrow> fingerprint_rule \<Rightarrow> int" where
  "rule_score re_search ob rule =
     min (sum_list (map (\<lambda>e. snd (snd e)) (filter (evidence_matches re_search ob) (rule_evidence rule)))) 100"

text \<open>The captures of the last evidence entry that matches, if any does.\<close>

definition last_match_groups :: "regex_search \<Rightarrow> observation \<Rightarrow> fingerprint_rule \<Rightarrow> groups option" where
  "last_match_groups re_search ob rule =
     (case rev (filter (evidence_matches re_search ob) (rule_evidence rule)) of
        [] \<Rightarrow> None
      | (location, pattern, weight) # _ \<Rightarrow> snd (match_evidence re_search ob location pattern))"

text \<open>The result for a winning rule, from the rule's declaration and the observation
  alone.\<close>

definition winner_result :: "regex_search \<Rightarrow> observation \<Rightarrow> fingerprint_rule \<Rightarrow> analysis_result" where
  "winner_result re_search ob rule =
     \<lparr>res_service_type = rule_type rule,
      res_vendor = or_unknown (rule_vendor rule),
      res_product = or_unknown (rule_product rule),
      res_version = first_group (last_match_groups re_search ob rule),
      res_tags = rule_tags rule,
      res_confidence = rule_score re_search ob rule,
      res_evidence = map (\<lambda>e. ''Matched '' @ fst e)
                       (filter (evidence_matches re_search ob) (rule_evidence rule))\<rparr>"

text \<open>A rule as declared: the object with its mutable attribute in the state the
  constructor leaves it in.\<close>

definition as_declared :: "fingerprint_rule \<Rightarrow> fingerprint_rule" where
  "as_declared rule = rule\<lparr>last_groups := None\<rparr>"

subsection \<open>Observations for the fingerprinter\<close>

text \<open>Scenario E4: only the banner \<open>Apache/2.4.41 (Ubuntu)\<close>.\<close>

definition e4_obs :: observation where
  "e4_obs = fp_obs (Some ''Apache/2.4.41 (Ubuntu)'') Map.empty None"

text \<open>What \<open>HTTPProbe.run\<close> makes of the response
  \<^verbatim>\<open>HTTP/1.1 200 OK\r\nServer: Apache/2.4.41 (Ubuntu)\r\n\r\n\<close>: the banner is the head
  part, the header keys are in lower case, and the body is the empty text.\<close>

definition served_obs :: observation where
  "served_obs = fp_obs (Some (''HTTP/1.1 200 OK'' @ CRLF @ ''Server: Apache/2.4.41 (Ubuntu)''))
                  [''server'' \<mapsto> ''Apache/2.4.41 (Ubuntu)''] (Some [])"

text \<open>A banner that names the product without a version, and an observation with no
  text at all.\<close>

definition bare_obs :: observation where
  "bare_obs = fp_obs (Some ''Apache'') Map.empty None"

definition silent_obs :: observation where
  "silent_obs = fp_obs None Map.empty None"

section \<open>Theorems\<close>

subsection \<open>Termination of the scheduler's \<open>get_next_chunk\<close>\<close>

lemma filter_map_le:
  "(\<And>x. x \<in> set xs \<Longrightarrow> P (f x) \<Longrightarrow> P x) \<Longrightarrow> length (filter P (map f xs)) \<le> length (filter P xs)"
  by (induction xs) auto

lemma filter_map_less:
  "(\<And>x. x \<in> set xs \<Longrightarrow> P (f x) \<Longrightarrow> P x) \<Longrightarrow> \<exists>x \<in> set xs. P x \<and> \<not> P (f x) \<Longrightarrow>
   length (filter P (map f xs)) < length (filter P xs)"
proof (induction xs)
  case Nil then show ?case by simp
next
  case (Cons a xs)
  have le: "length (filter P (map f xs)) \<le> length (filter P xs)"
    using Cons.prems(1) by (intro filter_map_le) auto
  show ?case
  proof (cases "P a \<and> \<not> P (f a)")
    case True
    then show ?thesis using le by simp
  next
    case False
    then have "\<exists>x \<in> set xs. P x \<and> \<not> P (f x)" using Cons.prems(2) by auto
    then have "length (filter P (map f xs)) < length (filter P xs)"
      using Cons.IH Cons.prems(1) by auto
    then show ?thesis using Cons.prems(1)[of a] by auto
  qed
qed

lemma exhausted_count_map_le:
  assumes "\<And>c. c \<in> set (scan_state db) \<Longrightarrow> exhausted (f c) \<Longrightarrow> exhausted c"
  shows "exhausted_count (db\<lparr>scan_state := map f (scan_state db)\<rparr>) \<le> exhausted_count db"
  using filter_map_le[of "scan_state db" exhausted f] assms
  by (simp add: exhausted_count_def del: filter_map)

lemma exhausted_count_map_less:
  assumes "\<And>c. c \<in> set (scan_state db) \<Longrightarrow> exhausted (f c) \<Longrightarrow> exhausted c"
    and "\<exists>c \<in> set (scan_state db). exhausted c \<and> \<not> exhausted (f c)"
  shows "exhausted_count (db\<lparr>scan_state := map f (scan_state db)\<rparr>) < exhausted_count db"
  using filter_map_less[of "scan_state db" exhausted f] assms
  by (simp add: exhausted_count_def del: filter_map)

lemma exhausted_promote:
  "exhausted_count (promote_ignored_chunks now h db) \<le> exhausted_count db"
  unfolding promote_ignored_chunks_def
  by (rule exhausted_count_map_le) (auto simp: exhausted_def pending_def split: if_splits)

lemma exhausted_reset:
  "exhausted_count (reset_stale_chunk now i db) \<le> exhausted_count db"
  unfolding reset_stale_chunk_def update_where_id_def
  by (rule exhausted_count_map_le) (auto simp: exhausted_def pending_def MAX_RETRIES_def split: if_splits)

lemma store_advance [simp]: "store (advance s) = store s"
  by (simp add: advance_def)

lemma store_db_call [simp]: "store (db_call clk f s) = f (clk (ticks s)) (store s)"
  by (simp add: db_call_def)

lemma exhausted_reset_each:
  "exhausted_count (store (reset_each clk ids s)) \<le> exhausted_count (store s)"
proof (induction ids arbitrary: s)
  case Nil then show ?case by simp
next
  case (Cons i ids)
  have "exhausted_count (store (reset_each clk (i # ids) s))
        \<le> exhausted_count (store (db_call clk (\<lambda>now. reset_stale_chunk now i) s))"
    unfolding reset_each.simps by (rule Cons.IH)
  also have "\<dots> \<le> exhausted_count (store s)" by (simp add: exhausted_reset)
  finally show ?case .
qed

lemma exhausted_rescan:
  "exhausted_count (store (rescan_stale clk hp h s)) \<le> exhausted_count (store s)"
  unfolding rescan_stale_def Let_def
  using exhausted_reset_each[of clk _ "advance s"] by simp

lemma exhausted_maintain:
  "exhausted_count (store (maintain_queue_health clk s)) \<le> exhausted_count (store s)"
proof (cases "clk (ticks s) - last_maintenance_ts s < 3600 * 1000000")
  case True
  then show ?thesis by (simp add: maintain_queue_health_def)
next
  case False
  define s1 where "s1 = db_call clk (\<lambda>now. promote_ignored_chunks now 48) (advance s)"
  define s2 where "s2 = rescan_stale clk True 24 s1"
  define s3 where "s3 = rescan_stale clk False 168 s2"
  have "store (maintain_queue_health clk s) = store s3"
    using False by (simp add: maintain_queue_health_def Let_def s1_def s2_def s3_def)
  moreover have "exhausted_count (store s3) \<le> exhausted_count (store s2)"
    unfolding s3_def by (rule exhausted_rescan)
  moreover have "exhausted_count (store s2) \<le> exhausted_count (store s1)"
    unfolding s2_def by (rule exhausted_rescan)
  moreover have "exhausted_count (store s1) \<le> exhausted_count (store s)"
    unfolding s1_def by (simp add: exhausted_promote)
  ultimately show ?thesis by simp
qed

lemma db_get_next_chunk_Some:
  assumes "db_get_next_chunk db = Some (cid, a, b, r)"
  shows "\<exists>c \<in> set (scan_state db). pending c \<and> chunk_id c = cid \<and> chunk_start c = a \<and>
           chunk_end c = b \<and> retry_count c = r \<and>
           (\<forall>d \<in> set (scan_state db). pending d \<longrightarrow> queue_order c \<le> queue_order d)"
proof -
  let ?xs = "sort_key queue_order (filter pending (scan_state db))"
  from assms obtain row rest where xs: "?xs = row # rest"
    and row: "chunk_id row = cid" "chunk_start row = a" "chunk_end row = b" "retry_count row = r"
    by (auto simp: db_get_next_chunk_def split: list.splits)
  have "row \<in> set ?xs" using xs by simp
  then have mem: "row \<in> set (scan_state db)" "pending row" by auto
  have srt: "sorted (map queue_order ?xs)" by simp
  have "\<forall>d \<in> set ?xs. queue_order row \<le> queue_order d"
    using srt unfolding xs by auto
  then have "\<forall>d \<in> set (scan_state db). pending d \<longrightarrow> queue_order row \<le> queue_order d"
    by auto
  with mem row show ?thesis by blast
qed

lemma exhausted_mark_failed:
  assumes "c \<in> set (scan_state db)" "exhausted c"
  shows "exhausted_count (update_chunk_status now (chunk_id c) FAILED (Some ''Max Retries Exceeded'') db)
           < exhausted_count db"
proof -
  have "exhausted_count (db\<lparr>scan_state := map (\<lambda>ca. if chunk_id ca = chunk_id c
               then ca\<lparr>status := FAILED, last_error := Some ''Max Retries Exceeded'',
                         updated_at := now, retry_count := retry_count ca + 1\<rparr>
               else ca) (scan_state db)\<rparr>) < exhausted_count db"
    by (rule exhausted_count_map_less) (use assms in \<open>auto simp: exhausted_def pending_def split: if_splits\<close>)
  then show ?thesis
    by (simp add: update_chunk_status_def update_where_id_def truthy_def)
qed

termination get_next_chunk
proof (relation "measure (\<lambda>(clk, s). exhausted_count (store s))", goal_cases)
  case 1 show ?case by simp
next
  case (2 clk s s1 x2 cid y start_ip z end_ip retries)
  then obtain c where c: "c \<in> set (scan_state (store s1))" "pending c" "chunk_id c = cid" "retry_count c = retries"
    using db_get_next_chunk_Some[of "store s1" cid start_ip end_ip retries] by auto
  with 2 have ex: "exhausted c" by (simp add: exhausted_def)
  have "exhausted_count (update_chunk_status (clk (ticks s1)) cid FAILED (Some ''Max Retries Exceeded'') (store s1))
        < exhausted_count (store s1)"
    using exhausted_mark_failed[OF c(1) ex] c(3) by simp
  moreover have "exhausted_count (store s1) \<le> exhausted_count (store s)"
    using 2 by (simp add: exhausted_maintain)
  ultimately show ?case by simp
qed

declare get_next_chunk.simps [simp del]


subsection \<open>Chunking a target\<close>

lemma length_enqueue:
  "length (scan_state (store (enqueue clk c n p s))) = Suc (length (scan_state (store s)))"
  by (simp add: enqueue_def create_scan_chunk_def Let_def)

lemma length_fold_enqueue:
  "length (scan_state (store (fold (\<lambda>subnet. enqueue clk c subnet p) ns s)))
     = length (scan_state (store s)) + length ns"
  by (induction ns arbitrary: s) (simp_all add: length_enqueue)

lemma small_network_iff: "num_addresses n \<le> CHUNK_SIZE \<longleftrightarrow> 24 \<le> prefixlen n"
proof -
  have "(2::nat) ^ (32 - prefixlen n) \<le> 2 ^ 8 \<longleftrightarrow> 32 - prefixlen n \<le> 8"
    by (rule power_increasing_iff) simp
  then show ?thesis by (auto simp: num_addresses_def CHUNK_SIZE_def)
qed

lemmas parse_defs = ipv4_network_def ip_int_from_string_def parse_octet_def parse_digits_def
  digit_val_def make_netmask_def prefix_from_ip_int_def

lemmas enqueue_defs = enqueue_def db_call_def advance_def create_scan_chunk_def next_rowid_def
  first_address_def last_address_def str_ip_def str_network_def digit_char_def Let_def

text \<open>
  C5. Whatever the library's parser is: when it rejects the target, \<open>initialize_scan\<close>
  returns with the state unchanged (nothing enqueued, no error); when it yields an IPv4
  network of prefix length \<open>p\<close>, the table \<open>scan_state\<close> grows by exactly
  \<open>max 1 (2 ^ (24 - p))\<close> rows if \<open>p \<le> 24\<close> and by exactly one row otherwise.
\<close>

theorem initialize_scan_chunk_count:
  "(case parse target_cidr of
      None \<Rightarrow> initialize_scan parse clk target_cidr prio s = s
    | Some network \<Rightarrow>
        length (scan_state (store (initialize_scan parse clk target_cidr prio s))) =
          length (scan_state (store s)) +
          (if prefixlen network \<le> 24 then max 1 (2 ^ (24 - prefixlen network)) else 1))"
proof (cases "parse target_cidr")
  case None
  then show ?thesis by (simp add: initialize_scan_def)
next
  case (Some network)
  show ?thesis
  proof (cases "24 \<le> prefixlen network")
    case True
    then have "prefixlen network \<le> 24 \<Longrightarrow> prefixlen network = 24" by simp
    with True Some show ?thesis
      by (auto simp: initialize_scan_def small_network_iff length_enqueue)
  next
    case False
    then have "max (1::nat) (2 ^ (24 - prefixlen network)) = 2 ^ (24 - prefixlen network)"
      by (simp add: max_def)
    with False Some show ?thesis
      by (simp add: initialize_scan_def small_network_iff length_fold_enqueue subnets_def)
  qed
qed

lemma ipv4_network_example:
  "ipv4_network ''10.1.2.3/22'' = Some \<lparr>network_address = 167837696, prefixlen = 22\<rparr>"
  by (simp add: parse_defs)

lemma ipv4_network_invalid: "ipv4_network ''10.1.2.3/33'' = None"
  by (simp add: parse_defs)

text \<open>The target \<open>10.1.2.3/22\<close> gives four chunks; the target \<open>10.1.2.3/33\<close> is dropped.\<close>

theorem initialize_scan_chunk_count_witness:
  "length (scan_state (store (initialize_scan ipv4_network int ''10.1.2.3/22'' 7 initial_sched))) = 4 \<and>
   initialize_scan ipv4_network int ''10.1.2.3/33'' 7 initial_sched = initial_sched"
  using initialize_scan_chunk_count [where parse = ipv4_network and target_cidr = "''10.1.2.3/22''"
      and clk = int and prio = 7 and s = initial_sched]
    initialize_scan_chunk_count [where parse = ipv4_network and target_cidr = "''10.1.2.3/33''"
      and clk = int and prio = 7 and s = initial_sched]
  by (simp add: ipv4_network_example ipv4_network_invalid initial_sched_def empty_db_def)

text \<open>The four chunks of \<open>10.1.2.3/22\<close>: the /24 subnets in ascending order, each carrying
  the target text as given.\<close>

lemma initialize_scan_example:
  "map (\<lambda>c. (chunk_id c, cidr c, chunk_start c, chunk_end c, status c, priority c, retry_count c))
     (scan_state (store (initialize_scan ipv4_network clk ''10.1.2.3/22'' 7 initial_sched)))
   = [(1, ''10.1.2.3/22'', Some ''10.1.0.0'', Some ''10.1.0.255'', QUEUED, 7, 0),
      (2, ''10.1.2.3/22'', Some ''10.1.1.0'', Some ''10.1.1.255'', QUEUED, 7, 0),
      (3, ''10.1.2.3/22'', Some ''10.1.2.0'', Some ''10.1.2.255'', QUEUED, 7, 0),
      (4, ''10.1.2.3/22'', Some ''10.1.3.0'', Some ''10.1.3.255'', QUEUED, 7, 0)]"
  by (simp add: initialize_scan_def ipv4_network_example num_addresses_def CHUNK_SIZE_def
      subnets_def upt_rec enqueue_defs initial_sched_def empty_db_def)

subsection \<open>The priority queue\<close>

lemma db_get_next_chunk_None:
  "db_get_next_chunk db = None \<longleftrightarrow> (\<forall>c \<in> set (scan_state db). \<not> pending c)"
proof -
  have "sort_key queue_order (filter pending (scan_state db)) = [] \<longleftrightarrow>
        filter pending (scan_state db) = []"
    by (metis length_0_conv length_sort)
  then show ?thesis
    by (auto simp: db_get_next_chunk_def filter_empty_conv split: list.splits)
qed

lemma queue_order_le:
  "queue_order c \<le> queue_order d \<longleftrightarrow>
     priority d < priority c \<or> (priority d = priority c \<and> created_at c \<le> created_at d)"
  by (auto simp: queue_order_def less_eq_prod_def)

lemma e1_parse1: "ipv4_network ''127.0.0.1/32'' = Some \<lparr>network_address = 2130706433, prefixlen = 32\<rparr>"
  by (simp add: parse_defs)

lemma e1_parse2: "ipv4_network ''127.0.0.2/32'' = Some \<lparr>network_address = 2130706434, prefixlen = 32\<rparr>"
  by (simp add: parse_defs)

lemma e1_sched_eq:
  "e1_sched clk = \<lparr>store = e1_db 1 (clk 0) (clk 0) (clk 1), last_maintenance_ts = 0, ticks = 2\<rparr>"
  by (simp add: e1_sched_def initialize_scan_def e1_parse1 e1_parse2 num_addresses_def CHUNK_SIZE_def
      enqueue_defs initial_sched_def empty_db_def numeral_2_eq_2 e1_db_def)

lemma e1_promote:
  "\<exists>p u. p < 10 \<and> promote_ignored_chunks now 48 (e1_db 1 c0 c0 c1) = e1_db p c0 u c1"
proof (cases "c0 < now - hours 48")
  case True
  then have "promote_ignored_chunks now 48 (e1_db 1 c0 c0 c1) = e1_db 2 c0 now c1"
    by (simp add: promote_ignored_chunks_def e1_db_def empty_db_def)
  then show ?thesis by (intro exI[of _ 2] exI[of _ now]) simp
next
  case False
  then have "promote_ignored_chunks now 48 (e1_db 1 c0 c0 c1) = e1_db 1 c0 c0 c1"
    by (simp add: promote_ignored_chunks_def e1_db_def empty_db_def)
  then show ?thesis by (intro exI[of _ 1] exI[of _ c0]) simp
qed

lemma e1_rescan:
  "store s = e1_db p c0 u c1 \<Longrightarrow> store (rescan_stale clk hp h s) = e1_db p c0 u c1"
  by (simp add: rescan_stale_def get_stale_chunks_def e1_db_def empty_db_def)

lemma e1_maintain:
  "\<exists>p u. p < 10 \<and> store (maintain_queue_health clk (e1_sched clk)) = e1_db p (clk 0) u (clk 1)"
proof (cases "clk 2 < 3600 * 1000000")
  case True
  then have "store (maintain_queue_health clk (e1_sched clk)) = e1_db 1 (clk 0) (clk 0) (clk 1)"
    by (simp add: maintain_queue_health_def e1_sched_eq)
  then show ?thesis by (intro exI[of _ 1] exI[of _ "clk 0"]) simp
next
  case False
  define s1 where "s1 = db_call clk (\<lambda>now. promote_ignored_chunks now 48) (advance (e1_sched clk))"
  obtain p u where p: "p < 10" and s1: "store s1 = e1_db p (clk 0) u (clk 1)"
    using e1_promote[of "clk (ticks (advance (e1_sched clk)))" "clk 0" "clk 1"]
    by (auto simp: s1_def e1_sched_eq)
  have "store (maintain_queue_health clk (e1_sched clk))
        = store (rescan_stale clk False 168 (rescan_stale clk True 24 s1))"
    using False by (simp add: maintain_queue_health_def Let_def s1_def e1_sched_eq)
  also have "\<dots> = e1_db p (clk 0) u (clk 1)"
    by (intro e1_rescan s1)
  finally show ?thesis using p by blast
qed

lemma e1_next:
  "fst (get_next_chunk clk (e1_sched clk)) = Some (2, Some ''127.0.0.2'', Some ''127.0.0.2'')"
proof -
  obtain p u where p: "p < 10"
    and m: "store (maintain_queue_health clk (e1_sched clk)) = e1_db p (clk 0) u (clk 1)"
    using e1_maintain by blast
  have "db_get_next_chunk (store (maintain_queue_health clk (e1_sched clk))) =
          Some (2, Some ''127.0.0.2'', Some ''127.0.0.2'', 0)"
    using p by (simp add: m e1_db_def db_get_next_chunk_def pending_def queue_order_def empty_db_def less_eq_prod_def)
  then show ?thesis
    by (subst get_next_chunk.simps) (simp add: Let_def MAX_RETRIES_def)
qed

text \<open>
  C7. If some chunk is QUEUED or RETRYING, the store's \<open>get_next_chunk\<close> returns the
  id, range and retry count of such a chunk, whose priority is maximal among all QUEUED
  or RETRYING chunks and whose \<open>created_at\<close> is minimal among those of that priority.
  And scenario E1, for every behaviour of the clock: after enqueuing \<open>127.0.0.1/32\<close> at
  priority 1 and \<open>127.0.0.2/32\<close> at priority 10 on a fresh database, the scheduler's
  \<open>get_next_chunk\<close> returns the chunk that starts at \<open>127.0.0.2\<close>.
\<close>

theorem db_get_next_chunk_highest_priority:
  "((\<exists>c \<in> set (scan_state db). pending c) \<longrightarrow>
      (\<exists>c \<in> set (scan_state db). pending c \<and>
         db_get_next_chunk db = Some (chunk_id c, chunk_start c, chunk_end c, retry_count c) \<and>
         (\<forall>d \<in> set (scan_state db). pending d \<longrightarrow>
            priority d \<le> priority c \<and>
            (priority d = priority c \<longrightarrow> created_at c \<le> created_at d)))) \<and>
   fst (get_next_chunk clk
          (initialize_scan ipv4_network clk ''127.0.0.2/32'' 10
             (initialize_scan ipv4_network clk ''127.0.0.1/32'' 1 initial_sched)))
     = Some (2, Some ''127.0.0.2'', Some ''127.0.0.2'')"
proof (intro conjI impI)
  assume "\<exists>c \<in> set (scan_state db). pending c"
  then have "db_get_next_chunk db \<noteq> None" by (simp add: db_get_next_chunk_None)
  then obtain cid a b r where "db_get_next_chunk db = Some (cid, a, b, r)"
    by (cases "db_get_next_chunk db") auto
  from db_get_next_chunk_Some[OF this] this
  obtain c where c: "c \<in> set (scan_state db)" "pending c"
      "db_get_next_chunk db = Some (chunk_id c, chunk_start c, chunk_end c, retry_count c)"
      "\<forall>d \<in> set (scan_state db). pending d \<longrightarrow> queue_order c \<le> queue_order d"
    by auto
  from c(4) have "\<forall>d \<in> set (scan_state db). pending d \<longrightarrow>
            priority d \<le> priority c \<and> (priority d = priority c \<longrightarrow> created_at c \<le> created_at d)"
    by (auto simp: queue_order_le)
  with c show "\<exists>c \<in> set (scan_state db). pending c \<and>
         db_get_next_chunk db = Some (chunk_id c, chunk_start c, chunk_end c, retry_count c) \<and>
         (\<forall>d \<in> set (scan_state db). pending d \<longrightarrow>
            priority d \<le> priority c \<and>
            (priority d = priority c \<longrightarrow> created_at c \<le> created_at d))"
    by blast
next
  show "fst (get_next_chunk clk
          (initialize_scan ipv4_network clk ''127.0.0.2/32'' 10
             (initialize_scan ipv4_network clk ''127.0.0.1/32'' 1 initial_sched)))
     = Some (2, Some ''127.0.0.2'', Some ''127.0.0.2'')"
    using e1_next by (simp add: e1_sched_def)
qed

text \<open>The table of scenario E1 read at times 0 and 1: a QUEUED chunk exists, and the
  store hands out chunk 2, the one of priority 10.\<close>

theorem db_get_next_chunk_highest_priority_witness:
  "pending (hd (scan_state (e1_db 1 0 0 1))) \<and>
   db_get_next_chunk (e1_db 1 0 0 1) = Some (2, Some ''127.0.0.2'', Some ''127.0.0.2'', 0) \<and>
   fst (get_next_chunk int
          (initialize_scan ipv4_network int ''127.0.0.2/32'' 10
             (initialize_scan ipv4_network int ''127.0.0.1/32'' 1 initial_sched)))
     = Some (2, Some ''127.0.0.2'', Some ''127.0.0.2'')"
  using db_get_next_chunk_highest_priority [of "e1_db 1 0 0 1" int]
  by (simp add: e1_db_def empty_db_def pending_def db_get_next_chunk_def queue_order_def
      less_eq_prod_def)

subsection \<open>The retry bound\<close>

lemma fold_max_ge: "seq \<le> fold max ids (seq::nat)" "i \<in> set ids \<Longrightarrow> i \<le> fold max ids seq"
proof -
  have "seq \<le> fold max ids seq \<and> (\<forall>i \<in> set ids. i \<le> fold max ids seq)"
  proof (induction ids arbitrary: seq)
    case Nil show ?case by simp
  next
    case (Cons a ids)
    from Cons.IH[of "max a seq"] show ?case by auto
  qed
  then show "seq \<le> fold max ids (seq::nat)" "i \<in> set ids \<Longrightarrow> i \<le> fold max ids seq" by auto
qed

lemma next_rowid_fresh: "next_rowid seq ids \<notin> set ids"
  using fold_max_ge(2)[of "next_rowid seq ids" ids seq] by (auto simp: next_rowid_def)

lemma retry_inv_create:
  "retry_inv db \<Longrightarrow> retry_inv (create_scan_chunk now c a b p db)"
  using next_rowid_fresh[of "scan_state_seq db" "map chunk_id (scan_state db)"]
  by (auto simp: retry_inv_def create_scan_chunk_def Let_def row_ok_def MAX_RETRIES_def)

lemma retry_inv_enqueue: "retry_inv (store s) \<Longrightarrow> retry_inv (store (enqueue clk c n p s))"
  by (simp add: enqueue_def retry_inv_create)

lemma retry_inv_fold_enqueue:
  "retry_inv (store s) \<Longrightarrow> retry_inv (store (fold (\<lambda>subnet. enqueue clk c subnet p) ns s))"
  by (induction ns arbitrary: s) (simp_all add: retry_inv_enqueue)

lemma retry_inv_initialize_scan:
  "retry_inv (store s) \<Longrightarrow> retry_inv (store (initialize_scan parse clk t p s))"
  by (auto simp: initialize_scan_def retry_inv_enqueue retry_inv_fold_enqueue split: option.splits)

lemma retry_inv_map:
  assumes "retry_inv db" "\<And>c. chunk_id (f c) = chunk_id c"
    "\<And>c. c \<in> set (scan_state db) \<Longrightarrow> row_ok c \<Longrightarrow> row_ok (f c)"
  shows "retry_inv (db\<lparr>scan_state := map f (scan_state db)\<rparr>)"
proof -
  have "chunk_id \<circ> f = chunk_id"
    using assms(2) by (simp add: fun_eq_iff)
  with assms show ?thesis by (simp add: retry_inv_def)
qed

lemma retry_inv_promote: "retry_inv db \<Longrightarrow> retry_inv (promote_ignored_chunks now h db)"
  unfolding promote_ignored_chunks_def
  by (rule retry_inv_map) (auto simp: row_ok_def)

lemma retry_inv_reset: "retry_inv db \<Longrightarrow> retry_inv (reset_stale_chunk now i db)"
  unfolding reset_stale_chunk_def update_where_id_def
  by (rule retry_inv_map) (auto simp: row_ok_def MAX_RETRIES_def)

lemma retry_inv_reset_each:
  "retry_inv (store s) \<Longrightarrow> retry_inv (store (reset_each clk ids s))"
  by (induction ids arbitrary: s) (simp_all add: retry_inv_reset)

lemma retry_inv_rescan: "retry_inv (store s) \<Longrightarrow> retry_inv (store (rescan_stale clk hp h s))"
  by (simp add: rescan_stale_def Let_def retry_inv_reset_each)

lemma store_maintain_cases:
  "store (maintain_queue_health clk s) = store s \<or>
   store (maintain_queue_health clk s) =
     store (rescan_stale clk False 168 (rescan_stale clk True 24
       (db_call clk (\<lambda>now. promote_ignored_chunks now 48) (advance s))))"
  by (simp add: maintain_queue_health_def Let_def)

lemma retry_inv_maintain:
  "retry_inv (store s) \<Longrightarrow> retry_inv (store (maintain_queue_health clk s))"
  using store_maintain_cases[of clk s]
  by (auto simp: retry_inv_rescan retry_inv_promote)

lemma unique_row:
  "distinct (map chunk_id rows) \<Longrightarrow> c \<in> set rows \<Longrightarrow> d \<in> set rows \<Longrightarrow>
   chunk_id c = chunk_id d \<Longrightarrow> c = d"
  by (meson distinct_map inj_onD)

lemma retry_inv_update_status:
  assumes "retry_inv db" "c \<in> set (scan_state db)"
    "row_ok (c\<lparr>status := st, last_error := err, updated_at := now, retry_count := retry_count c + 1\<rparr>) \<or> \<not> truthy err"
    "row_ok (c\<lparr>status := st, updated_at := now\<rparr>) \<or> truthy err"
  shows "retry_inv (update_chunk_status now (chunk_id c) st err db)"
proof (cases "truthy err")
  case True
  have "retry_inv (db\<lparr>scan_state := map (\<lambda>d. if chunk_id d = chunk_id c
            then d\<lparr>status := st, last_error := err, updated_at := now, retry_count := retry_count d + 1\<rparr>
            else d) (scan_state db)\<rparr>)"
  proof (rule retry_inv_map[OF assms(1)], goal_cases)
    case (1 d) show ?case by simp
  next
    case (2 d)
    show ?case
    proof (cases "chunk_id d = chunk_id c")
      case True
      then have "d = c" using unique_row[of "scan_state db" d c] assms(1,2) 2(1) by (simp add: retry_inv_def)
      then show ?thesis using assms(3) \<open>truthy err\<close> by simp
    next
      case False then show ?thesis using 2 by simp
    qed
  qed
  then show ?thesis using True by (simp add: update_chunk_status_def update_where_id_def)
next
  case False
  have "retry_inv (db\<lparr>scan_state := map (\<lambda>d. if chunk_id d = chunk_id c
            then d\<lparr>status := st, updated_at := now\<rparr> else d) (scan_state db)\<rparr>)"
  proof (rule retry_inv_map[OF assms(1)], goal_cases)
    case (1 d) show ?case by simp
  next
    case (2 d)
    show ?case
    proof (cases "chunk_id d = chunk_id c")
      case True
      then have "d = c" using unique_row[of "scan_state db" d c] assms(1,2) 2(1) by (simp add: retry_inv_def)
      then show ?thesis using assms(4) False by simp
    next
      case False then show ?thesis using 2 by simp
    qed
  qed
  then show ?thesis using False by (simp add: update_chunk_status_def update_where_id_def)
qed

lemma retry_inv_get_next_chunk:
  "retry_inv (store s) \<Longrightarrow> retry_inv (store (snd (get_next_chunk clk s)))"
proof (induction clk s rule: get_next_chunk.induct)
  case (1 clk s)
  define s1 where "s1 = maintain_queue_health clk s"
  have inv1: "retry_inv (store s1)" using "1.prems" by (simp add: s1_def retry_inv_maintain)
  show ?case
  proof (cases "db_get_next_chunk (store s1)")
    case None
    then show ?thesis using inv1 by (subst get_next_chunk.simps) (simp add: s1_def[symmetric] Let_def)
  next
    case (Some row)
    obtain cid a b r where row: "row = (cid, a, b, r)" by (cases row) auto
    from db_get_next_chunk_Some[of "store s1" cid a b r] Some row
    obtain c where c: "c \<in> set (scan_state (store s1))" "pending c" "chunk_id c = cid" "retry_count c = r"
      by auto
    show ?thesis
    proof (cases "r \<ge> MAX_RETRIES")
      case True
      let ?s2 = "db_call clk (\<lambda>now. update_chunk_status now cid FAILED (Some ''Max Retries Exceeded'')) s1"
      have "retry_inv (store ?s2)"
        using retry_inv_update_status[OF inv1 c(1), where st = FAILED and err = "Some ''Max Retries Exceeded''" and now = "clk (ticks s1)"] c(3)
        by (simp add: row_ok_def truthy_def)
      then have "retry_inv (store (snd (get_next_chunk clk ?s2)))"
        using "1.IH"[OF s1_def Some[unfolded row] refl refl refl True] by (simp add: s1_def)
      then show ?thesis using Some row True
        by (subst get_next_chunk.simps) (simp add: s1_def[symmetric] Let_def)
    next
      case False
      have "retry_inv (update_chunk_status (clk (ticks s1)) cid SCANNING None (store s1))"
        using retry_inv_update_status[OF inv1 c(1), where st = SCANNING and err = None and now = "clk (ticks s1)"] c False
        by (simp add: row_ok_def truthy_def)
      then show ?thesis using Some row False
        by (subst get_next_chunk.simps) (simp add: s1_def[symmetric] Let_def)
    qed
  qed
qed

lemma reachable_retry_inv: "reachable parse clk s \<Longrightarrow> retry_inv (store s)"
proof (induction rule: reachable.induct)
  case start
  show ?case by (simp add: initial_sched_def empty_db_def retry_inv_def)
next
  case (seed s target prio)
  then show ?case by (simp add: retry_inv_initialize_scan)
next
  case (fetch s)
  then show ?case by (simp add: retry_inv_get_next_chunk)
next
  case (complete s c)
  then have "row_ok c" by (simp add: retry_inv_def)
  with complete show ?case
    using retry_inv_update_status[where db = "store s" and c = c and st = COMPLETED and err = None and now = "clk (ticks s)"]
    by (simp add: complete_chunk_def row_ok_def truthy_def)
next
  case (fail s c err)
  then have "row_ok c" by (simp add: retry_inv_def)
  with fail show ?case
    using retry_inv_update_status[where db = "store s" and c = c and st = RETRYING and err = "Some err" and now = "clk (ticks s)"]
    by (auto simp: fail_chunk_def row_ok_def truthy_def)
next
  case (maintain s)
  then show ?case by (simp add: retry_inv_maintain)
qed

lemma next_none:
  "db_get_next_chunk (store (maintain_queue_health clk s)) = None \<Longrightarrow>
   get_next_chunk clk s = (None, maintain_queue_health clk s)"
  by (subst get_next_chunk.simps) (simp add: Let_def)

lemma next_skip:
  "db_get_next_chunk (store (maintain_queue_health clk s)) = Some (cid, a, b, r) \<Longrightarrow>
   MAX_RETRIES \<le> r \<Longrightarrow>
   get_next_chunk clk s =
     get_next_chunk clk (db_call clk (\<lambda>now. update_chunk_status now cid FAILED
        (Some ''Max Retries Exceeded'')) (maintain_queue_health clk s))"
  by (subst get_next_chunk.simps) (simp add: Let_def)

lemma next_take:
  "db_get_next_chunk (store (maintain_queue_health clk s)) = Some (cid, a, b, r) \<Longrightarrow>
   \<not> MAX_RETRIES \<le> r \<Longrightarrow>
   get_next_chunk clk s =
     (Some (cid, a, b),
      db_call clk (\<lambda>now. update_chunk_status now cid SCANNING None) (maintain_queue_health clk s))"
  by (subst get_next_chunk.simps) (simp add: Let_def)

lemma scanning_row:
  assumes "c \<in> set (scan_state db)"
  shows "c\<lparr>status := SCANNING, updated_at := now\<rparr>
           \<in> set (scan_state (update_chunk_status now (chunk_id c) SCANNING None db))"
proof -
  have "(\<lambda>d. if chunk_id d = chunk_id c then d\<lparr>status := SCANNING, updated_at := now\<rparr> else d) c
          \<in> set (scan_state (update_chunk_status now (chunk_id c) SCANNING None db))"
    unfolding update_chunk_status_def update_where_id_def truthy_def
    using assms by (simp del: if_P)
  then show ?thesis by simp
qed

lemma get_next_chunk_returns:
  "get_next_chunk clk s = (Some (cid, a, b), s') \<Longrightarrow>
   \<exists>c \<in> set (scan_state (store s')). chunk_id c = cid \<and> chunk_start c = a \<and> chunk_end c = b \<and>
      status c = SCANNING \<and> retry_count c < MAX_RETRIES"
proof (induction clk s rule: get_next_chunk.induct)
  case (1 clk s)
  define s1 where "s1 = maintain_queue_health clk s"
  show ?case
  proof (cases "db_get_next_chunk (store s1)")
    case None
    then show ?thesis using "1.prems" next_none[of clk s] by (simp add: s1_def)
  next
    case (Some row)
    obtain cid' a' b' r where row: "row = (cid', a', b', r)" by (cases row) auto
    have sel: "db_get_next_chunk (store (maintain_queue_health clk s)) = Some (cid', a', b', r)"
      using Some row by (simp add: s1_def)
    show ?thesis
    proof (cases "MAX_RETRIES \<le> r")
      case True
      let ?s2 = "db_call clk (\<lambda>now. update_chunk_status now cid' FAILED (Some ''Max Retries Exceeded'')) s1"
      have "get_next_chunk clk ?s2 = (Some (cid, a, b), s')"
        using "1.prems" next_skip[OF sel True] by (simp add: s1_def)
      then show ?thesis
        using "1.IH"[OF s1_def Some[unfolded row] refl refl refl True] by simp
    next
      case False
      from db_get_next_chunk_Some[OF sel]
      obtain c where c: "c \<in> set (scan_state (store s1))" "chunk_id c = cid'" "chunk_start c = a'"
          "chunk_end c = b'" "retry_count c = r"
        by (auto simp: s1_def)
      have res: "cid = cid'" "a = a'" "b = b'"
          "s' = db_call clk (\<lambda>now. update_chunk_status now cid' SCANNING None) s1"
        using "1.prems" next_take[OF sel False] by (auto simp: s1_def)
      have "c\<lparr>status := SCANNING, updated_at := clk (ticks s1)\<rparr> \<in> set (scan_state (store s'))"
        using scanning_row[OF c(1), of "clk (ticks s1)"] c(2) by (simp add: res)
      moreover have "chunk_id (c\<lparr>status := SCANNING, updated_at := clk (ticks s1)\<rparr>) = cid"
        "chunk_start (c\<lparr>status := SCANNING, updated_at := clk (ticks s1)\<rparr>) = a"
        "chunk_end (c\<lparr>status := SCANNING, updated_at := clk (ticks s1)\<rparr>) = b"
        "status (c\<lparr>status := SCANNING, updated_at := clk (ticks s1)\<rparr>) = SCANNING"
        "retry_count (c\<lparr>status := SCANNING, updated_at := clk (ticks s1)\<rparr>) < MAX_RETRIES"
        using c False res by simp_all
      ultimately show ?thesis by blast
    qed
  qed
qed

(* ---- FAILED rows stay FAILED through the call ---- *)

lemma all_failed_map:
  assumes "all_failed db i" "\<And>c. chunk_id (f c) = chunk_id c"
    "\<And>c. c \<in> set (scan_state db) \<Longrightarrow> status c = FAILED \<Longrightarrow> status (f c) = FAILED"
  shows "all_failed (db\<lparr>scan_state := map f (scan_state db)\<rparr>) i"
  using assms by (auto simp: all_failed_def)

lemma all_failed_promote: "all_failed db i \<Longrightarrow> all_failed (promote_ignored_chunks now h db) i"
  unfolding promote_ignored_chunks_def by (rule all_failed_map) auto

lemma all_failed_update_other:
  "all_failed db i \<Longrightarrow> j \<noteq> i \<Longrightarrow> (\<And>c. chunk_id (f c) = chunk_id c) \<Longrightarrow>
   all_failed (update_where_id j f db) i"
  by (auto simp: all_failed_def update_where_id_def)

lemma all_failed_reset_each:
  "all_failed (store s) i \<Longrightarrow> i \<notin> set ids \<Longrightarrow> all_failed (store (reset_each clk ids s)) i"
proof (induction ids arbitrary: s)
  case Nil then show ?case by simp
next
  case (Cons j ids)
  have "all_failed (store (db_call clk (\<lambda>now. reset_stale_chunk now j) s)) i"
    using Cons.prems by (auto simp: reset_stale_chunk_def intro!: all_failed_update_other)
  then show ?case using Cons by simp
qed

lemma stale_ids_completed:
  "j \<in> set (map fst (get_stale_chunks now lim hp h db)) \<Longrightarrow>
   \<exists>c \<in> set (scan_state db). chunk_id c = j \<and> status c = COMPLETED"
proof -
  assume "j \<in> set (map fst (get_stale_chunks now lim hp h db))"
  then obtain c where "c \<in> set (take lim (sort_key updated_at
          (filter (\<lambda>c. status c = COMPLETED \<and> updated_at c < now - hours h \<and>
                        (if hp then priority c \<ge> 5 else priority c < 5))
             (scan_state db))))" "chunk_id c = j"
    by (auto simp: get_stale_chunks_def)
  then show ?thesis by (auto dest!: in_set_takeD)
qed

lemma all_failed_rescan:
  "all_failed (store s) i \<Longrightarrow> all_failed (store (rescan_stale clk hp h s)) i"
proof -
  assume f: "all_failed (store s) i"
  have "i \<notin> set (map fst (get_stale_chunks (clk (ticks s)) 50 hp h (store s)))"
  proof
    assume "i \<in> set (map fst (get_stale_chunks (clk (ticks s)) 50 hp h (store s)))"
    from stale_ids_completed[OF this] f show False
      by (auto simp: all_failed_def)
  qed
  then show ?thesis
    using all_failed_reset_each[of "advance s" i] f by (simp add: rescan_stale_def Let_def)
qed

lemma all_failed_maintain:
  "all_failed (store s) i \<Longrightarrow> all_failed (store (maintain_queue_health clk s)) i"
  using store_maintain_cases[of clk s]
  by (auto simp: all_failed_rescan all_failed_promote)

lemma all_failed_get_next_chunk:
  "all_failed (store s) i \<Longrightarrow> all_failed (store (snd (get_next_chunk clk s))) i"
proof (induction clk s rule: get_next_chunk.induct)
  case (1 clk s)
  define s1 where "s1 = maintain_queue_health clk s"
  have f1: "all_failed (store s1) i" using "1.prems" by (simp add: s1_def all_failed_maintain)
  show ?case
  proof (cases "db_get_next_chunk (store s1)")
    case None
    then show ?thesis using f1 next_none[of clk s] by (simp add: s1_def)
  next
    case (Some row)
    obtain cid a b r where row: "row = (cid, a, b, r)" by (cases row) auto
    have sel: "db_get_next_chunk (store (maintain_queue_health clk s)) = Some (cid, a, b, r)"
      using Some row by (simp add: s1_def)
    from db_get_next_chunk_Some[OF sel]
    obtain c where c: "c \<in> set (scan_state (store s1))" "pending c" "chunk_id c = cid"
      by (auto simp: s1_def)
    then have ne: "cid \<noteq> i" using f1 by (auto simp: all_failed_def pending_def)
    have upd: "all_failed (update_chunk_status now cid st err (store s1)) i" for now st err
      using f1 ne by (auto simp: update_chunk_status_def intro!: all_failed_update_other)
    show ?thesis
    proof (cases "MAX_RETRIES \<le> r")
      case True
      let ?s2 = "db_call clk (\<lambda>now. update_chunk_status now cid FAILED (Some ''Max Retries Exceeded'')) s1"
      have "all_failed (store (snd (get_next_chunk clk ?s2))) i"
        using "1.IH"[OF s1_def Some[unfolded row] refl refl refl True] upd by simp
      then show ?thesis using next_skip[OF sel True] by (simp add: s1_def)
    next
      case False
      then show ?thesis using next_take[OF sel False] upd by (simp add: s1_def)
    qed
  qed
qed

lemma all_failed_update_same:
  assumes "\<And>c. chunk_id (f c) = chunk_id c" "\<And>c. status (f c) = FAILED"
  shows "all_failed (update_where_id cid f db) cid"
  unfolding all_failed_def update_where_id_def
proof
  fix c assume "c \<in> set (scan_state (db\<lparr>scan_state := map (\<lambda>c. if chunk_id c = cid then f c else c) (scan_state db)\<rparr>))"
  then obtain d where d: "d \<in> set (scan_state db)" "c = (if chunk_id d = cid then f d else d)"
    by auto
  show "chunk_id c = cid \<longrightarrow> status c = FAILED"
  proof (cases "chunk_id d = cid")
    case True then show ?thesis using d assms by simp
  next
    case False then show ?thesis using d by simp
  qed
qed

lemma all_failed_mark:
  "all_failed (update_chunk_status now cid FAILED (Some ''Max Retries Exceeded'') db) cid"
proof -
  have "truthy (Some ''Max Retries Exceeded'')" by (simp add: truthy_def)
  then have "update_chunk_status now cid FAILED (Some ''Max Retries Exceeded'') db =
      update_where_id cid (\<lambda>c. c\<lparr>status := FAILED, last_error := Some ''Max Retries Exceeded'',
         updated_at := now, retry_count := retry_count c + 1\<rparr>) db"
    by (simp only: update_chunk_status_def if_True)
  moreover have "all_failed (update_where_id cid (\<lambda>c. c\<lparr>status := FAILED,
         last_error := Some ''Max Retries Exceeded'',
         updated_at := now, retry_count := retry_count c + 1\<rparr>) db) cid"
    by (rule all_failed_update_same) simp_all
  ultimately show ?thesis by simp
qed

lemma get_next_chunk_skips:
  assumes "db_get_next_chunk (store (maintain_queue_health clk s)) = Some (cid, a, b, r)"
    and "MAX_RETRIES \<le> r"
  shows "get_next_chunk clk s =
           get_next_chunk clk (db_call clk (\<lambda>now. update_chunk_status now cid FAILED
              (Some ''Max Retries Exceeded'')) (maintain_queue_health clk s))"
    and "all_failed (store (snd (get_next_chunk clk s))) cid"
proof -
  show eq: "get_next_chunk clk s =
           get_next_chunk clk (db_call clk (\<lambda>now. update_chunk_status now cid FAILED
              (Some ''Max Retries Exceeded'')) (maintain_queue_health clk s))"
    using assms by (subst get_next_chunk.simps) (simp add: Let_def)
  show "all_failed (store (snd (get_next_chunk clk s))) cid"
    unfolding eq by (rule all_failed_get_next_chunk) (simp add: all_failed_mark)
qed




lemma ids_map:
  "(\<And>c. chunk_id (f c) = chunk_id c) \<Longrightarrow>
   map chunk_id (scan_state (db\<lparr>scan_state := map f (scan_state db)\<rparr>)) = map chunk_id (scan_state db)"
  by (simp add: comp_def)

lemma ids_update_chunk_status:
  "map chunk_id (scan_state (update_chunk_status now cid st err db)) = map chunk_id (scan_state db)"
  by (simp add: update_chunk_status_def update_where_id_def comp_def)

lemma ids_reset_each: "chunk_ids (reset_each clk js s) = chunk_ids s"
  by (induction js arbitrary: s)
     (simp_all add: chunk_ids_def reset_stale_chunk_def update_where_id_def comp_def)

lemma ids_rescan: "chunk_ids (rescan_stale clk hp h s) = chunk_ids s"
  using ids_reset_each[of clk _ "advance s"] by (simp add: rescan_stale_def Let_def chunk_ids_def)

lemma ids_maintain: "chunk_ids (maintain_queue_health clk s) = chunk_ids s"
proof -
  have "chunk_ids (db_call clk (\<lambda>now. promote_ignored_chunks now 48) (advance s)) = chunk_ids s"
    by (simp add: chunk_ids_def promote_ignored_chunks_def comp_def)
  then show ?thesis
    using store_maintain_cases[of clk s] ids_rescan
    by (auto simp: chunk_ids_def)
qed

lemma ids_get_next_chunk: "chunk_ids (snd (get_next_chunk clk s)) = chunk_ids s"
proof (induction clk s rule: get_next_chunk.induct)
  case (1 clk s)
  define s1 where "s1 = maintain_queue_health clk s"
  have i1: "chunk_ids s1 = chunk_ids s" by (simp add: s1_def ids_maintain)
  show ?case
  proof (cases "db_get_next_chunk (store s1)")
    case None
    then show ?thesis using i1 next_none[of clk s] by (simp add: s1_def)
  next
    case (Some row)
    obtain cid a b r where row: "row = (cid, a, b, r)" by (cases row) auto
    have sel: "db_get_next_chunk (store (maintain_queue_health clk s)) = Some (cid, a, b, r)"
      using Some row by (simp add: s1_def)
    show ?thesis
    proof (cases "MAX_RETRIES \<le> r")
      case True
      let ?s2 = "db_call clk (\<lambda>now. update_chunk_status now cid FAILED (Some ''Max Retries Exceeded'')) s1"
      have "chunk_ids (snd (get_next_chunk clk ?s2)) = chunk_ids ?s2"
        using "1.IH"[OF s1_def Some[unfolded row] refl refl refl True] .
      also have "\<dots> = chunk_ids s1" by (simp add: chunk_ids_def ids_update_chunk_status)
      finally show ?thesis using next_skip[OF sel True] i1 by (simp add: s1_def)
    next
      case False
      then show ?thesis using next_take[OF sel False] i1
        by (simp add: s1_def chunk_ids_def ids_update_chunk_status)
    qed
  qed
qed

text \<open>
  C6. In every state the engine can reach: (1) each chunk that is not FAILED has
  \<open>retry_count \<le> MAX_RETRIES\<close>; (2) whenever \<open>get_next_chunk\<close> returns a chunk, that
  chunk is in SCANNING afterwards with \<open>retry_count < MAX_RETRIES\<close>; (3) when the store's
  candidate (after maintenance) has \<open>retry_count \<ge> MAX_RETRIES\<close>, the call is the call
  on the state in which that candidate was marked FAILED with the error text (the
  recursion to the next candidate), the candidate is still in the table afterwards, and
  every row with its id is FAILED when the call returns. The call always returns:
  \<open>get_next_chunk\<close> is a total function.
\<close>

theorem retry_limit_enforced:
  assumes "reachable parse clk s"
  shows "(\<forall>c \<in> set (scan_state (store s)). status c \<noteq> FAILED \<longrightarrow> retry_count c \<le> MAX_RETRIES) \<and>
         (\<forall>cid a b. fst (get_next_chunk clk s) = Some (cid, a, b) \<longrightarrow>
            (\<exists>c \<in> set (scan_state (store (snd (get_next_chunk clk s)))).
               chunk_id c = cid \<and> chunk_start c = a \<and> chunk_end c = b \<and>
               status c = SCANNING \<and> retry_count c < MAX_RETRIES)) \<and>
         (\<forall>cid a b r. db_get_next_chunk (store (maintain_queue_health clk s)) = Some (cid, a, b, r) \<and>
                      MAX_RETRIES \<le> r \<longrightarrow>
            get_next_chunk clk s =
              get_next_chunk clk (db_call clk (\<lambda>now. update_chunk_status now cid FAILED
                 (Some ''Max Retries Exceeded'')) (maintain_queue_health clk s)) \<and>
            cid \<in> set (chunk_ids (snd (get_next_chunk clk s))) \<and>
            all_failed (store (snd (get_next_chunk clk s))) cid)"
proof (intro conjI allI impI)
  show "\<forall>c \<in> set (scan_state (store s)). status c \<noteq> FAILED \<longrightarrow> retry_count c \<le> MAX_RETRIES"
    using reachable_retry_inv[OF assms] by (simp add: retry_inv_def row_ok_def)
next
  fix cid a b assume "fst (get_next_chunk clk s) = Some (cid, a, b)"
  then have "get_next_chunk clk s = (Some (cid, a, b), snd (get_next_chunk clk s))"
    by (simp add: prod_eq_iff)
  then show "\<exists>c \<in> set (scan_state (store (snd (get_next_chunk clk s)))).
               chunk_id c = cid \<and> chunk_start c = a \<and> chunk_end c = b \<and>
               status c = SCANNING \<and> retry_count c < MAX_RETRIES"
    by (rule get_next_chunk_returns)
next
  fix cid a b r
  assume h: "db_get_next_chunk (store (maintain_queue_health clk s)) = Some (cid, a, b, r) \<and>
             MAX_RETRIES \<le> r"
  then show "get_next_chunk clk s =
              get_next_chunk clk (db_call clk (\<lambda>now. update_chunk_status now cid FAILED
                 (Some ''Max Retries Exceeded'')) (maintain_queue_health clk s))"
    using get_next_chunk_skips(1) by blast
  from h show "all_failed (store (snd (get_next_chunk clk s))) cid"
    using get_next_chunk_skips(2) by blast
  from h db_get_next_chunk_Some[of "store (maintain_queue_health clk s)" cid a b r]
  have "cid \<in> set (chunk_ids (maintain_queue_health clk s))" by (auto simp: chunk_ids_def)
  then show "cid \<in> set (chunk_ids (snd (get_next_chunk clk s)))"
    by (simp add: ids_get_next_chunk ids_maintain)
qed

lemma demo_seed:
  "initialize_scan ipv4_network (\<lambda>_. 0) ''127.0.0.1/32'' 1 initial_sched = retry_demo QUEUED 0 None 1"
  by (simp add: initialize_scan_def e1_parse1 num_addresses_def CHUNK_SIZE_def enqueue_defs
      initial_sched_def empty_db_def retry_demo_def)

lemma demo_maintain:
  "maintain_queue_health (\<lambda>_. 0) (retry_demo st n err t) = retry_demo st n err (Suc t)"
  by (simp add: maintain_queue_health_def retry_demo_def advance_def)

lemma demo_select:
  "pending \<lparr>chunk_id = 1, cidr = ''127.0.0.1/32'', chunk_start = Some ''127.0.0.1'',
          chunk_end = Some ''127.0.0.1'', status = st, priority = 1, retry_count = n,
          last_error = err, created_at = 0, updated_at = 0\<rparr> \<Longrightarrow>
   db_get_next_chunk (store (retry_demo st n err t)) = Some (1, Some ''127.0.0.1'', Some ''127.0.0.1'', n)"
  by (simp add: db_get_next_chunk_def retry_demo_def empty_db_def)

lemma demo_fetch:
  assumes "st = QUEUED \<or> st = RETRYING" "n < 3"
  shows "get_next_chunk (\<lambda>_. 0) (retry_demo st n err t) =
           (Some (1, Some ''127.0.0.1'', Some ''127.0.0.1''), retry_demo SCANNING n err (Suc (Suc t)))"
proof -
  have sel: "db_get_next_chunk (store (maintain_queue_health (\<lambda>_. 0) (retry_demo st n err t)))
               = Some (1, Some ''127.0.0.1'', Some ''127.0.0.1'', n)"
    unfolding demo_maintain using assms(1) by (intro demo_select) (auto simp: pending_def)
  have "\<not> MAX_RETRIES \<le> n" using assms(2) by (simp add: MAX_RETRIES_def)
  from next_take[OF sel this] show ?thesis
    by (simp add: demo_maintain)
       (simp add: retry_demo_def db_call_def advance_def update_chunk_status_def
          update_where_id_def truthy_def empty_db_def)
qed

lemma demo_fail:
  "fail_chunk (\<lambda>_. 0) 1 ''boom'' (retry_demo SCANNING n err t) =
     retry_demo RETRYING (n + 1) (Some ''boom'') (Suc t)"
  by (simp add: fail_chunk_def retry_demo_def db_call_def advance_def update_chunk_status_def
        update_where_id_def truthy_def empty_db_def)

lemma demo_exhausted:
  "get_next_chunk (\<lambda>_. 0) (retry_demo RETRYING 3 (Some ''boom'') t) =
     (None, retry_demo FAILED 4 (Some ''Max Retries Exceeded'') (Suc (Suc (Suc t))))"
proof -
  let ?clk = "\<lambda>_::nat. 0::int"
  have sel: "db_get_next_chunk (store (maintain_queue_health ?clk (retry_demo RETRYING 3 (Some ''boom'') t)))
               = Some (1, Some ''127.0.0.1'', Some ''127.0.0.1'', 3)"
    unfolding demo_maintain by (intro demo_select) (simp add: pending_def)
  have mark: "db_call ?clk (\<lambda>now. update_chunk_status now 1 FAILED (Some ''Max Retries Exceeded''))
                (retry_demo RETRYING 3 (Some ''boom'') (Suc t))
              = retry_demo FAILED 4 (Some ''Max Retries Exceeded'') (Suc (Suc t))"
    by (simp add: retry_demo_def db_call_def advance_def update_chunk_status_def
          update_where_id_def truthy_def empty_db_def)
  have none: "db_get_next_chunk (store (maintain_queue_health ?clk
                (retry_demo FAILED 4 (Some ''Max Retries Exceeded'') (Suc (Suc t))))) = None"
    unfolding demo_maintain
    by (simp add: db_get_next_chunk_def retry_demo_def empty_db_def pending_def)
  have le: "MAX_RETRIES \<le> 3" by (simp add: MAX_RETRIES_def)
  have "get_next_chunk ?clk (retry_demo RETRYING 3 (Some ''boom'') t) =
        get_next_chunk ?clk (db_call ?clk (\<lambda>now. update_chunk_status now 1 FAILED
           (Some ''Max Retries Exceeded'')) (maintain_queue_health ?clk (retry_demo RETRYING 3 (Some ''boom'') t)))"
    by (rule next_skip[OF sel le])
  also have "\<dots> = get_next_chunk ?clk (retry_demo FAILED 4 (Some ''Max Retries Exceeded'') (Suc (Suc t)))"
    by (simp only: demo_maintain mark)
  also have "\<dots> = (None, maintain_queue_health ?clk
               (retry_demo FAILED 4 (Some ''Max Retries Exceeded'') (Suc (Suc t))))"
    by (rule next_none[OF none])
  also have "\<dots> = (None, retry_demo FAILED 4 (Some ''Max Retries Exceeded'') (Suc (Suc (Suc t))))"
    by (simp only: demo_maintain)
  finally show ?thesis .
qed

lemma demo_reachable: "reachable ipv4_network (\<lambda>_. 0) (retry_demo RETRYING 3 (Some ''boom'') 10)"
proof -
  let ?clk = "\<lambda>_::nat. 0::int"
  let ?R = "reachable ipv4_network ?clk"
  have scanning: "?R (retry_demo RETRYING (n + 1) (Some ''boom'') (Suc t))"
    if r: "?R (retry_demo SCANNING n err t)" for n err t
  proof -
    let ?row = "\<lparr>chunk_id = 1, cidr = ''127.0.0.1/32'', chunk_start = Some ''127.0.0.1'',
          chunk_end = Some ''127.0.0.1'', status = SCANNING, priority = 1, retry_count = n,
          last_error = err, created_at = 0, updated_at = 0\<rparr>"
    have mem: "?row \<in> set (scan_state (store (retry_demo SCANNING n err t)))"
      by (simp add: retry_demo_def empty_db_def)
    have st: "status ?row = SCANNING" by simp
    have "?R (fail_chunk ?clk (chunk_id ?row) ''boom'' (retry_demo SCANNING n err t))"
      by (rule reachable.fail[OF r mem st])
    moreover have "chunk_id ?row = 1" by simp
    ultimately have "?R (fail_chunk ?clk 1 ''boom'' (retry_demo SCANNING n err t))"
      by (simp only:)
    then show ?thesis by (simp only: demo_fail)
  qed
  have fetching: "?R (retry_demo SCANNING n err (Suc (Suc t)))"
    if "?R (retry_demo st n err t)" "st = QUEUED \<or> st = RETRYING" "n < 3" for st n err t
  proof -
    have "?R (snd (get_next_chunk ?clk (retry_demo st n err t)))"
      by (rule reachable.fetch[OF that(1)])
    then show ?thesis by (simp only: demo_fetch[OF that(2,3)] snd_conv)
  qed
  have "?R (initialize_scan ipv4_network ?clk ''127.0.0.1/32'' 1 initial_sched)"
    by (rule reachable.seed[OF reachable.start])
  then have "?R (retry_demo QUEUED 0 None 1)" by (simp only: demo_seed)
  then have "?R (retry_demo SCANNING 0 None (Suc (Suc 1)))" by (rule fetching) simp_all
  then have "?R (retry_demo RETRYING (0 + 1) (Some ''boom'') (Suc (Suc (Suc 1))))" by (rule scanning)
  then have "?R (retry_demo SCANNING (0 + 1) (Some ''boom'') (Suc (Suc (Suc (Suc (Suc 1))))))"
    by (rule fetching) simp_all
  then have "?R (retry_demo RETRYING (0 + 1 + 1) (Some ''boom'') (Suc (Suc (Suc (Suc (Suc (Suc 1)))))))"
    by (rule scanning)
  then have "?R (retry_demo SCANNING (0 + 1 + 1) (Some ''boom'') (Suc (Suc (Suc (Suc (Suc (Suc (Suc (Suc 1)))))))))"
    by (rule fetching) simp_all
  then have "?R (retry_demo RETRYING (0 + 1 + 1 + 1) (Some ''boom'') (Suc (Suc (Suc (Suc (Suc (Suc (Suc (Suc (Suc 1))))))))))"
    by (rule scanning)
  moreover have "(0::int) + 1 + 1 + 1 = 3" by simp
  moreover have "Suc (Suc (Suc (Suc (Suc (Suc (Suc (Suc (Suc 1)))))))) = 10" by simp
  ultimately show ?thesis by (simp only:)
qed

text \<open>
  One chunk failed three times by the engine: a reachable state with a RETRYING chunk
  of \<open>retry_count = 3\<close>. The next \<open>get_next_chunk\<close> marks it FAILED (the count becomes 4)
  and returns nothing.
\<close>

theorem retry_limit_enforced_witness:
  "reachable ipv4_network (\<lambda>_. 0) (retry_demo RETRYING 3 (Some ''boom'') 10) \<and>
   db_get_next_chunk (store (maintain_queue_health (\<lambda>_. 0) (retry_demo RETRYING 3 (Some ''boom'') 10)))
     = Some (1, Some ''127.0.0.1'', Some ''127.0.0.1'', 3) \<and>
   fst (get_next_chunk (\<lambda>_. 0) (retry_demo RETRYING 3 (Some ''boom'') 10)) = None \<and>
   map (\<lambda>c. (chunk_id c, status c, retry_count c))
     (scan_state (store (snd (get_next_chunk (\<lambda>_. 0) (retry_demo RETRYING 3 (Some ''boom'') 10)))))
     = [(1, FAILED, 4)] \<and>
   all_failed (store (snd (get_next_chunk (\<lambda>_. 0) (retry_demo RETRYING 3 (Some ''boom'') 10)))) 1"
proof (intro conjI)
  let ?clk = "\<lambda>_::nat. 0::int"
  let ?s = "retry_demo RETRYING 3 (Some ''boom'') 10"
  note T = retry_limit_enforced[OF demo_reachable]
  show "reachable ipv4_network ?clk ?s" by (rule demo_reachable)
  show sel: "db_get_next_chunk (store (maintain_queue_health ?clk ?s))
     = Some (1, Some ''127.0.0.1'', Some ''127.0.0.1'', 3)"
    unfolding demo_maintain by (intro demo_select) (simp add: pending_def)
  show "fst (get_next_chunk ?clk ?s) = None" by (simp only: demo_exhausted fst_conv)
  show "map (\<lambda>c. (chunk_id c, status c, retry_count c)) (scan_state (store (snd (get_next_chunk ?clk ?s))))
     = [(1, FAILED, 4)]"
    by (simp only: demo_exhausted snd_conv) (simp add: retry_demo_def empty_db_def)
  have "MAX_RETRIES \<le> 3" by (simp add: MAX_RETRIES_def)
  with T sel show "all_failed (store (snd (get_next_chunk ?clk ?s))) 1" by blast
qed

subsection \<open>History on change\<close>

lemmas store_defs = save_observation_batch_def upsert_host_batch_def upsert_host_def existing_map_def
  obs_key_def svc_key_def banner_or_empty_def history_due_def new_service_def insert_service_def
  update_service_def insert_history_def next_rowid_def coalesce_def no_analysis_def e5_obs_def
  empty_db_def dict_get_def dict_get_default_def Let_def

lemma partition_batch_history:
  "snd (snd (partition_batch em observations)) = history_events em observations"
  by (induction observations)
     (auto simp: history_events_def split: prod.splits option.splits)

lemma history_insert_services:
  "insert_services rows db = Inr db' \<Longrightarrow> history db' = history db"
  by (induction rows arbitrary: db)
     (auto simp: insert_service_def Let_def split: if_splits sum.splits)

lemma history_fold_update: "history (fold update_service us db) = history db"
  by (induction us arbitrary: db) (simp_all add: update_service_def)

lemma history_insert_history:
  "\<exists>row. history (insert_history h db) = history db @ [row] \<and> history_tuple row = h"
proof -
  obtain sid ts b st where h: "h = (sid, ts, b, st)" by (cases h) auto
  show ?thesis unfolding h insert_history_def history_tuple_def
    by (simp add: Let_def)
qed

lemma history_fold_insert:
  "\<exists>new. history (fold insert_history hs db) = history db @ new \<and> map history_tuple new = hs"
proof (induction hs arbitrary: db)
  case Nil
  then show ?case by simp
next
  case (Cons h hs)
  from history_insert_history[of h db] obtain row where
    row: "history (insert_history h db) = history db @ [row]" "history_tuple row = h" by blast
  from Cons.IH[of "insert_history h db"] obtain new where
    new: "history (fold insert_history hs (insert_history h db)) = history (insert_history h db) @ new"
      "map history_tuple new = hs" by blast
  have a: "history (fold insert_history (h # hs) db) = history db @ (row # new)"
    by (simp add: new(1) row(1))
  have b: "map history_tuple (row # new) = h # hs"
    by (simp add: new(2) row(2))
  show ?case
    by (rule exI[of _ "row # new"]) (simp only: a b simp_thms)
qed

lemma existing_map_hosts [simp]:
  "existing_map observations (upsert_host_batch hdata db) = existing_map observations db"
  by (simp add: existing_map_def upsert_host_batch_def)

lemma history_hosts [simp]: "history (upsert_host_batch hdata db) = history db"
  by (simp add: upsert_host_batch_def)

lemma save_observation_batch_history:
  assumes "save_observation_batch observations db = Inr db'"
  shows "\<exists>new. history db' = history db @ new \<and>
           map history_tuple new = history_events (existing_map observations db) observations"
proof (cases "observations = []")
  case True
  then show ?thesis using assms by (simp add: save_observation_batch_def history_events_def)
next
  case False
  define db1 where "db1 = upsert_host_batch (map (\<lambda>ob. (ob_ip ob, ob_timestamp ob)) observations) db"
  obtain ins ups hs where part: "partition_batch (existing_map observations db) observations = (ins, ups, hs)"
    by (cases "partition_batch (existing_map observations db) observations") auto
  from assms False part obtain db2 where db2: "insert_services ins db1 = Inr db2"
    and res: "db' = fold insert_history hs (fold update_service ups db2)"
    by (auto simp: save_observation_batch_def Let_def db1_def split: sum.splits)
  have hs: "hs = history_events (existing_map observations db) observations"
    using partition_batch_history[of "existing_map observations db" observations] part by simp
  have "history (fold update_service ups db2) = history db"
    using history_insert_services[OF db2] by (simp add: history_fold_update db1_def)
  then show ?thesis
    using history_fold_insert[of hs "fold update_service ups db2"] by (simp add: res hs)
qed


lemma fold_upd_absent:
  "\<forall>r \<in> set rows. key r \<noteq> k \<Longrightarrow> fold (\<lambda>row m. m(key row \<mapsto> val row)) rows m k = m k"
  by (induction rows arbitrary: m) auto

lemma fold_upd_present:
  "\<exists>r \<in> set rows. key r = k \<Longrightarrow> \<forall>r \<in> set rows. key r = k \<longrightarrow> val r = v \<Longrightarrow>
   fold (\<lambda>row m. m(key row \<mapsto> val row)) rows m k = Some v"
proof (induction rows arbitrary: m)
  case Nil
  then show ?case by simp
next
  case (Cons r rows)
  show ?case
  proof (cases "\<exists>r \<in> set rows. key r = k")
    case True
    then show ?thesis using Cons by simp
  next
    case False
    then have kv: "key r = k" "val r = v" using Cons.prems by auto
    have "fold (\<lambda>row m. m(key row \<mapsto> val row)) (r # rows) m k
            = fold (\<lambda>row m. m(key row \<mapsto> val row)) rows (m(key r \<mapsto> val r)) k"
      by (simp only: fold_simps comp_apply)
    also have "\<dots> = (m(key r \<mapsto> val r)) k"
      using False by (intro fold_upd_absent) simp
    also have "\<dots> = Some v" using kv by simp
    finally show ?thesis .
  qed
qed

lemma existing_map_absent:
  "k \<notin> svc_key ` set (services db) \<Longrightarrow> existing_map observations db k = None"
  unfolding existing_map_def
  by (subst fold_upd_absent) auto

lemma existing_map_tracked:
  assumes "tracked db k b s" "fst k \<in> set (map ob_ip observations)"
  shows "\<exists>sid. existing_map observations db k = Some (sid, b, s) \<and>
               (\<forall>r \<in> set (services db). svc_key r = k \<longrightarrow> svc_id r = sid)"
proof -
  from assms(1) obtain sid where
    ex: "\<exists>r \<in> set (services db). svc_key r = k" and
    all: "\<forall>r \<in> set (services db). svc_key r = k \<longrightarrow> svc_id r = sid \<and> svc_banner r = b \<and> svc_state r = s"
    unfolding tracked_def by blast
  let ?rows = "filter (\<lambda>row. svc_ip row \<in> set (map ob_ip observations)) (services db)"
  have "\<exists>r \<in> set ?rows. svc_key r = k"
    using ex assms(2) by (auto simp: svc_key_def)
  moreover have "\<forall>r \<in> set ?rows. svc_key r = k \<longrightarrow> (svc_id r, svc_banner r, svc_state r) = (sid, b, s)"
    using all by auto
  ultimately have "existing_map observations db k = Some (sid, b, s)"
    unfolding existing_map_def by (rule fold_upd_present)
  with all show ?thesis by blast
qed

lemma services_hosts [simp]: "services (upsert_host_batch hdata db) = services db"
  by (simp add: upsert_host_batch_def)

lemma services_fold_insert_history [simp]: "services (fold insert_history hs db) = services db"
  by (induction hs arbitrary: db) (simp_all add: insert_history_def Let_def split: prod.splits)

lemma save_single_new:
  assumes "obs_key ob \<notin> svc_key ` set (services db)"
  shows "\<exists>db'. save_observation_batch [ob] db = Inr db' \<and>
           tracked db' (obs_key ob) (ob_banner ob) (ob_status ob) \<and> history db' = history db"
proof -
  let ?db1 = "upsert_host_batch [(ob_ip ob, ob_timestamp ob)] db"
  let ?i = "next_rowid (services_seq ?db1) (map svc_id (services ?db1))"
  let ?db2 = "?db1\<lparr>services := services ?db1 @ [(new_service ob)\<lparr>svc_id := ?i\<rparr>], services_seq := ?i\<rparr>"
  have key: "svc_key (new_service ob) = obs_key ob"
    by (simp add: svc_key_def new_service_def obs_key_def)
  have em: "existing_map [ob] ?db1 (obs_key ob) = None"
    using assms by (simp add: existing_map_absent)
  have ins: "insert_service (new_service ob) ?db1 = Inr ?db2"
    using assms key by (simp add: insert_service_def Let_def)
  have res: "save_observation_batch [ob] db = Inr ?db2"
    unfolding save_observation_batch_def using assms ins
    by (simp add: existing_map_absent Let_def)
  have none: "\<forall>r \<in> set (services db). svc_key r \<noteq> obs_key ob"
    using assms by (metis image_eqI)
  have row: "svc_key ((new_service ob)\<lparr>svc_id := ?i\<rparr>) = obs_key ob"
    "svc_banner ((new_service ob)\<lparr>svc_id := ?i\<rparr>) = ob_banner ob"
    "svc_state ((new_service ob)\<lparr>svc_id := ?i\<rparr>) = ob_status ob"
    by (simp_all add: svc_key_def new_service_def obs_key_def)
  have "tracked ?db2 (obs_key ob) (ob_banner ob) (ob_status ob)"
    unfolding tracked_def using none row
    by (intro conjI exI[of _ ?i]) auto
  moreover have "history ?db2 = history db" by simp
  ultimately show ?thesis using res by blast
qed


lemma in_set_mapI: "x \<in> set xs \<Longrightarrow> f x \<in> set (map f xs)"
  by simp

lemma save_single_existing:
  assumes "tracked db (obs_key ob) b s"
  shows "\<exists>db'. save_observation_batch [ob] db = Inr db' \<and>
           tracked db' (obs_key ob) (Some (banner_or_empty ob)) (ob_status ob) \<and>
           length (history db') = length (history db) + (if history_due b s ob then 1 else 0)"
proof -
  let ?db1 = "upsert_host_batch [(ob_ip ob, ob_timestamp ob)] db"
  have "fst (obs_key ob) \<in> set (map ob_ip [ob])" by (simp add: obs_key_def)
  from existing_map_tracked[OF assms this] obtain sid where
    em: "existing_map [ob] db (obs_key ob) = Some (sid, b, s)" and
    sid: "\<forall>r \<in> set (services db). svc_key r = obs_key ob \<longrightarrow> svc_id r = sid"
    by blast
  let ?u = "\<lparr>up_ts = ob_timestamp ob, up_banner = banner_or_empty ob,
             up_analysis = ob_analysis ob, up_state = ob_status ob, up_svc_id = sid\<rparr>"
  let ?hs = "if history_due b s ob then [(sid, ob_timestamp ob, banner_or_empty ob, ob_status ob)] else []"
  let ?db' = "fold insert_history ?hs (update_service ?u ?db1)"
  have res: "save_observation_batch [ob] db = Inr ?db'"
    unfolding save_observation_batch_def by (simp add: em Let_def)
  have ex: "\<exists>r \<in> set (services db). svc_key r = obs_key ob"
    using assms by (simp add: tracked_def)
  let ?f = "\<lambda>r0. if svc_id r0 = sid then r0\<lparr>svc_last_seen := ob_timestamp ob, svc_banner := Some (banner_or_empty ob),
               svc_service_type := coalesce (an_service_type (ob_analysis ob)) (svc_service_type r0),
               svc_vendor := coalesce (an_vendor (ob_analysis ob)) (svc_vendor r0),
               svc_product := coalesce (an_product (ob_analysis ob)) (svc_product r0),
               svc_version := coalesce (an_version (ob_analysis ob)) (svc_version r0),
               svc_confidence := coalesce (dict_get (an_confidence (ob_analysis ob))) (svc_confidence r0),
               svc_tags := (case an_tags (ob_analysis ob) of None \<Rightarrow> [] | Some ts \<Rightarrow> ts),
               svc_state := ob_status ob\<rparr> else r0"
  have svc: "services ?db' = map ?f (services db)"
    by (simp add: update_service_def)
  have keys: "svc_key (?f r) = svc_key r" for r
    by (simp add: svc_key_def)
  have tr: "tracked ?db' (obs_key ob) (Some (banner_or_empty ob)) (ob_status ob)"
    unfolding tracked_def svc
  proof (intro conjI exI[of _ sid] ballI impI)
    from ex obtain r where r: "r \<in> set (services db)" "svc_key r = obs_key ob" by blast
    have "?f r \<in> set (map ?f (services db))" by (rule in_set_mapI[where f = ?f, OF r(1)])
    moreover have "svc_key (?f r) = obs_key ob" using r(2) keys by simp
    ultimately show "\<exists>r \<in> set (map ?f (services db)). svc_key r = obs_key ob" by blast
  next
    fix r assume "r \<in> set (map ?f (services db))" and k: "svc_key r = obs_key ob"
    then obtain r0 where r0: "r0 \<in> set (services db)" "r = ?f r0"
      by (auto simp del: if_split)
    have "svc_key r0 = obs_key ob" using k unfolding r0(2) keys .
    then have "svc_id r0 = sid" using sid r0(1) by blast
    then show "svc_id r = sid" "svc_banner r = Some (banner_or_empty ob)" "svc_state r = ob_status ob"
      unfolding r0(2) by simp_all
  qed
  have len: "length (history ?db') = length (history db) + (if history_due b s ob then 1 else 0)"
    by (simp add: insert_history_def Let_def update_service_def)
  from res tr len show ?thesis by blast
qed

lemma due_vs_changed:
  "history_due (ob_banner o1) (ob_status o1) o2 = changed o1 o2"
  "history_due (Some (banner_or_empty o1)) (ob_status o1) o2 = changed o1 o2"
  by (auto simp: history_due_def changed_def banner_or_empty_def split: option.splits)

lemma changes_from_adjacent:
  "(\<And>o2. history_due b s o2 = changed o1 o2) \<Longrightarrow> changes_from b s os = adjacent_changes (o1 # os)"
proof (induction os arbitrary: b s o1)
  case Nil
  then show ?case by simp
next
  case (Cons o2 os)
  have "changes_from (Some (banner_or_empty o2)) (ob_status o2) os = adjacent_changes (o2 # os)"
    by (rule Cons.IH) (rule due_vs_changed(2))
  then show ?case using Cons.prems by simp
qed

lemma save_batches_tracked:
  assumes "tracked db k b s" "\<forall>ob \<in> set os. obs_key ob = k"
  shows "\<exists>db'. save_batches (map (\<lambda>ob. [ob]) os) db = Inr db' \<and>
           length (history db') = length (history db) + changes_from b s os"
  using assms
proof (induction os arbitrary: db b s)
  case Nil
  then show ?case by simp
next
  case (Cons ob os)
  then have k: "obs_key ob = k" by simp
  from save_single_existing[of db ob b s] Cons.prems(1) k obtain db1 where
    db1: "save_observation_batch [ob] db = Inr db1"
      "tracked db1 k (Some (banner_or_empty ob)) (ob_status ob)"
      "length (history db1) = length (history db) + (if history_due b s ob then 1 else 0)"
    by auto
  from Cons.IH[OF db1(2)] Cons.prems(2) obtain db' where
    db': "save_batches (map (\<lambda>ob. [ob]) os) db1 = Inr db'"
      "length (history db') = length (history db1) + changes_from (Some (banner_or_empty ob)) (ob_status ob) os"
    by auto
  have "save_batches (map (\<lambda>ob. [ob]) (ob # os)) db = Inr db'"
    by (simp add: db1(1) db'(1))
  moreover have "length (history db') = length (history db) + changes_from b s (ob # os)"
    by (simp add: db'(2) db1(3))
  ultimately show ?case by (intro exI[of _ db']) simp
qed

lemma save_batches_history_count:
  assumes "\<forall>ob \<in> set os. obs_key ob = k" "k \<notin> svc_key ` set (services db)"
  shows "\<exists>db'. save_batches (map (\<lambda>ob. [ob]) os) db = Inr db' \<and>
           length (history db') = length (history db) + adjacent_changes os"
proof (cases os)
  case Nil
  then show ?thesis by simp
next
  case (Cons o1 rest)
  then have k: "obs_key o1 = k" using assms(1) by simp
  from save_single_new[of o1 db] assms(2) k obtain db1 where
    db1: "save_observation_batch [o1] db = Inr db1" "tracked db1 k (ob_banner o1) (ob_status o1)"
      "history db1 = history db"
    by auto
  from save_batches_tracked[OF db1(2), of rest] assms(1) Cons obtain db' where
    db': "save_batches (map (\<lambda>ob. [ob]) rest) db1 = Inr db'"
      "length (history db') = length (history db1) + changes_from (ob_banner o1) (ob_status o1) rest"
    by auto
  have "changes_from (ob_banner o1) (ob_status o1) rest = adjacent_changes (o1 # rest)"
    by (rule changes_from_adjacent) (rule due_vs_changed(1))
  then have "length (history db') = length (history db) + adjacent_changes os"
    using db'(2) db1(3) Cons by simp
  moreover have "save_batches (map (\<lambda>ob. [ob]) os) db = Inr db'"
    using Cons db1(1) db'(1) by simp
  ultimately show ?thesis by (intro exI[of _ db']) simp
qed


text \<open>
  What the loop does for every batch. (a) A batch that commits appends to \<open>history\<close>, in
  batch order, exactly the events \<open>history_events\<close>: for each observation whose key had a
  Service row when the batch started, one event if the new state differs from that
  row's state or the new banner is non-empty and differs from that row's banner, and
  none otherwise; an observation that is inserted appends none. (b) For a batch of one
  observation that updates an existing row, one event is appended if and only if that
  condition holds. (c) Over any sequence of single-observation batches for one key that
  has no Service row at the start, every batch commits and the number of events
  appended equals the number of adjacent observation pairs whose status differs or
  whose later banner is non-empty and differs.
\<close>

theorem history_event_iff_change:
  "(save_observation_batch observations db = Inr db' \<longrightarrow>
      (\<exists>new. history db' = history db @ new \<and>
             map history_tuple new = history_events (existing_map observations db) observations)) \<and>
   (save_observation_batch [ob] db = Inr db1 \<and>
    existing_map [ob] db (obs_key ob) = Some (sid, old_banner, old_state) \<longrightarrow>
      (length (history db1) = Suc (length (history db)) \<longleftrightarrow>
         ob_status ob \<noteq> old_state \<or>
         (banner_or_empty ob \<noteq> [] \<and> Some (banner_or_empty ob) \<noteq> old_banner))) \<and>
   ((\<forall>ob \<in> set os. obs_key ob = k) \<and> k \<notin> svc_key ` set (services db) \<longrightarrow>
      (\<exists>db2. save_batches (map (\<lambda>ob. [ob]) os) db = Inr db2 \<and>
             length (history db2) = length (history db) + adjacent_changes os))"
proof (intro conjI impI)
  assume "save_observation_batch observations db = Inr db'"
  then show "\<exists>new. history db' = history db @ new \<and>
             map history_tuple new = history_events (existing_map observations db) observations"
    by (rule save_observation_batch_history)
next
  assume a: "save_observation_batch [ob] db = Inr db1 \<and>
    existing_map [ob] db (obs_key ob) = Some (sid, old_banner, old_state)"
  from save_observation_batch_history[of "[ob]" db db1] a obtain new where
    new: "history db1 = history db @ new"
      "map history_tuple new = history_events (existing_map [ob] db) [ob]" by blast
  have "length new = length (history_events (existing_map [ob] db) [ob])"
    using new(2) by (metis length_map)
  also have "\<dots> = (if history_due old_banner old_state ob then 1 else 0)"
    using a by (simp add: history_events_def)
  finally have "length (history db1) = length (history db) + (if history_due old_banner old_state ob then 1 else 0)"
    using new(1) by simp
  then show "length (history db1) = Suc (length (history db)) \<longleftrightarrow>
         ob_status ob \<noteq> old_state \<or>
         (banner_or_empty ob \<noteq> [] \<and> Some (banner_or_empty ob) \<noteq> old_banner)"
    by (auto simp: history_due_def)
next
  assume "(\<forall>ob \<in> set os. obs_key ob = k) \<and> k \<notin> svc_key ` set (services db)"
  then show "\<exists>db2. save_batches (map (\<lambda>ob. [ob]) os) db = Inr db2 \<and>
             length (history db2) = length (history db) + adjacent_changes os"
    using save_batches_history_count[of os k db] by blast
qed

lemma e5_changes: "adjacent_changes e5_batches = 2"
  by (simp add: e5_batches_def e5_obs_def changed_def banner_or_empty_def)

text \<open>Scenario E5: three observations of \<open>1.2.3.4:22\<close> on a fresh database give two
  events (the banner change, then the state change).\<close>

theorem history_event_iff_change_witness:
  "adjacent_changes e5_batches = 2 \<and>
   (\<exists>db. save_batches (map (\<lambda>ob. [ob]) e5_batches) empty_db = Inr db \<and> length (history db) = 2)"
proof -
  have k: "\<forall>ob \<in> set e5_batches. obs_key ob = (''1.2.3.4'', 22, ''tcp'')"
    by (simp add: e5_batches_def e5_obs_def obs_key_def)
  have fresh: "(''1.2.3.4'', 22, ''tcp'') \<notin> svc_key ` set (services empty_db)"
    by (simp add: empty_db_def)
  from history_event_iff_change[where os = e5_batches and k = "(''1.2.3.4'', 22, ''tcp'')" and db = empty_db]
    k fresh
  have "\<exists>db2. save_batches (map (\<lambda>ob. [ob]) e5_batches) empty_db = Inr db2 \<and>
             length (history db2) = length (history empty_db) + adjacent_changes e5_batches"
    by blast
  moreover have "length (history empty_db) + adjacent_changes e5_batches = 2"
    by (simp add: e5_changes empty_db_def)
  ultimately show ?thesis by (simp only: e5_changes simp_thms)
qed

lemma e5_run:
  "\<exists>db. save_batches (map (\<lambda>ob. [ob]) e5_batches) empty_db = Inr db \<and>
     map svc_state (services db) = [''closed''] \<and>
     map history_tuple (history db) = [(1, 2, ''SSH-2.0-B'', ''open''), (1, 3, [], ''closed'')]"
  by (simp add: store_defs e5_batches_def history_tuple_def)

text \<open>
  C1. The history rule fails for a batch that repeats the key of an existing Service.
  The row of \<open>1.2.3.4:22/tcp\<close> holds banner \<open>SSH-2.0-A\<close> and state \<open>open\<close>; one batch brings
  two observations of that key, both \<open>open\<close> with banner \<open>SSH-2.0-B\<close>. The first update
  changes the banner, and the second update is applied to a row that already holds
  \<open>SSH-2.0-B\<close> and \<open>open\<close>: it changes neither state nor banner, so no event is due for
  it. The loop compares both observations with \<open>existing_map\<close>, read once before the
  loop, and appends two events. The same two observations in two batches of one give
  one event, which is also the number of adjacent changes, and leave the same Service
  row.
\<close>

theorem history_event_without_change:
  "\<exists>db0 db1 db2.
     save_observation_batch [e5_obs 1 ''open'' (Some ''SSH-2.0-A'')] empty_db = Inr db0 \<and>
     map (\<lambda>r. (svc_id r, svc_banner r, svc_state r)) (services db0) =
       [(1, Some ''SSH-2.0-A'', ''open'')] \<and>
     history db0 = [] \<and>
     save_observation_batch
       [e5_obs 2 ''open'' (Some ''SSH-2.0-B''), e5_obs 3 ''open'' (Some ''SSH-2.0-B'')] db0 = Inr db1 \<and>
     map history_tuple (history db1) =
       [(1, 2, ''SSH-2.0-B'', ''open''), (1, 3, ''SSH-2.0-B'', ''open'')] \<and>
     \<not> history_due (Some ''SSH-2.0-B'') ''open'' (e5_obs 3 ''open'' (Some ''SSH-2.0-B'')) \<and>
     adjacent_changes [e5_obs 1 ''open'' (Some ''SSH-2.0-A''), e5_obs 2 ''open'' (Some ''SSH-2.0-B''),
                       e5_obs 3 ''open'' (Some ''SSH-2.0-B'')] = 1 \<and>
     save_batches [[e5_obs 2 ''open'' (Some ''SSH-2.0-B'')], [e5_obs 3 ''open'' (Some ''SSH-2.0-B'')]] db0 =
       Inr db2 \<and>
     map history_tuple (history db2) = [(1, 2, ''SSH-2.0-B'', ''open'')] \<and>
     map (\<lambda>r. (svc_id r, svc_banner r, svc_state r)) (services db2) =
       [(1, Some ''SSH-2.0-B'', ''open'')] \<and>
     map (\<lambda>r. (svc_id r, svc_banner r, svc_state r)) (services db1) =
       [(1, Some ''SSH-2.0-B'', ''open'')]"
  by (simp add: store_defs history_tuple_def changed_def)

subsection \<open>One upsert per key\<close>

lemma partition_batch_inserts:
  "fst (partition_batch em observations) =
     map new_service (filter (\<lambda>ob. em (obs_key ob) = None) observations)"
  by (induction observations) (auto split: prod.splits option.splits)

lemma svc_key_new_service: "svc_key (new_service ob) = obs_key ob"
  by (simp add: svc_key_def new_service_def obs_key_def)

lemma insert_service_Inr:
  assumes "insert_service row db = Inr db'"
  shows "svc_key row \<notin> svc_key ` set (services db)"
    and "svc_key ` set (services db') = insert (svc_key row) (svc_key ` set (services db))"
proof -
  show a: "svc_key row \<notin> svc_key ` set (services db)"
    using assms by (auto simp: insert_service_def split: if_splits)
  have "services db' = services db @ [row\<lparr>svc_id := next_rowid (services_seq db) (map svc_id (services db))\<rparr>]"
    using assms by (auto simp: insert_service_def Let_def split: if_splits)
  moreover have "svc_key (row\<lparr>svc_id := i\<rparr>) = svc_key row" for i
    by (simp add: svc_key_def)
  ultimately show "svc_key ` set (services db') = insert (svc_key row) (svc_key ` set (services db))"
    by simp
qed

lemma insert_services_Inr:
  "insert_services rows db = Inr db' \<Longrightarrow>
   distinct (map svc_key rows) \<and>
   (\<forall>r \<in> set rows. svc_key r \<notin> svc_key ` set (services db)) \<and>
   svc_key ` set (services db') = svc_key ` set (services db) \<union> svc_key ` set rows"
proof (induction rows arbitrary: db)
  case Nil
  then show ?case by simp
next
  case (Cons row rows)
  then obtain db1 where db1: "insert_service row db = Inr db1" "insert_services rows db1 = Inr db'"
    by (auto split: sum.splits)
  note one = insert_service_Inr[OF db1(1)]
  note ih = Cons.IH[OF db1(2)]
  have "svc_key row \<notin> svc_key ` set rows"
    using ih one(2) by auto
  moreover have "\<forall>r \<in> set rows. svc_key r \<notin> svc_key ` set (services db)"
    using ih one(2) by auto
  moreover have "svc_key ` set (services db') = svc_key ` set (services db) \<union> svc_key ` set (row # rows)"
    using ih one(2) by auto
  ultimately show ?case using ih one(1) by simp
qed

lemma insert_services_keys:
  "insert_services rows db = Inr db' \<Longrightarrow>
   map svc_key (services db') = map svc_key (services db) @ map svc_key rows"
proof (induction rows arbitrary: db)
  case Nil
  then show ?case by simp
next
  case (Cons row rows)
  then obtain db1 where db1: "insert_service row db = Inr db1" "insert_services rows db1 = Inr db'"
    by (auto split: sum.splits)
  have "services db1 = services db @ [row\<lparr>svc_id := next_rowid (services_seq db) (map svc_id (services db))\<rparr>]"
    using db1(1) by (auto simp: insert_service_def Let_def split: if_splits)
  moreover have "svc_key (row\<lparr>svc_id := i\<rparr>) = svc_key row" for i
    by (simp add: svc_key_def)
  ultimately have "map svc_key (services db1) = map svc_key (services db) @ [svc_key row]"
    by simp
  then show ?case using Cons.IH[OF db1(2)] by simp
qed

lemma update_service_keys: "map svc_key (services (update_service u db)) = map svc_key (services db)"
  by (simp add: update_service_def svc_key_def comp_def)

lemma fold_update_service_keys:
  "map svc_key (services (fold update_service us db)) = map svc_key (services db)"
  by (induction us arbitrary: db) (simp_all add: update_service_keys)

text \<open>The part of the invariant that the UNIQUE constraint carries: a batch that commits
  leaves the keys of \<open>services\<close> pairwise distinct.\<close>

lemma save_observation_batch_unique:
  assumes "distinct (map svc_key (services db))" "save_observation_batch observations db = Inr db'"
  shows "distinct (map svc_key (services db'))"
proof (cases "observations = []")
  case True
  then show ?thesis using assms by (simp add: save_observation_batch_def)
next
  case False
  let ?db1 = "upsert_host_batch (map (\<lambda>ob. (ob_ip ob, ob_timestamp ob)) observations) db"
  obtain ins ups hs where part: "partition_batch (existing_map observations db) observations = (ins, ups, hs)"
    by (cases "partition_batch (existing_map observations db) observations") auto
  from assms(2) False part obtain db2 where db2: "insert_services ins ?db1 = Inr db2"
    and res: "db' = fold insert_history hs (fold update_service ups db2)"
    by (auto simp: save_observation_batch_def Let_def split: sum.splits)
  have keys: "map svc_key (services db') = map svc_key (services db) @ map svc_key ins"
    using insert_services_keys[OF db2] by (simp add: res fold_update_service_keys)
  have "distinct (map svc_key ins)" "\<forall>r \<in> set ins. svc_key r \<notin> svc_key ` set (services ?db1)"
    using insert_services_Inr[OF db2] by simp_all
  then show ?thesis using assms(1) unfolding keys by auto
qed

text \<open>
  C8, the failing case. A batch that holds two observations with one key, where that
  key has no Service row, does not commit: the second INSERT violates
  UNIQUE(ip, port, protocol), the IntegrityError leaves \<open>save_observation_batch\<close>, and
  nothing of the batch (hosts, other services, history) is written.
\<close>

theorem duplicate_new_key_raises:
  assumes "obs_key a = obs_key b" "obs_key a \<notin> svc_key ` set (services db)"
  shows "save_observation_batch (xs @ a # ys @ b # zs) db = Inl IntegrityError"
proof -
  let ?obs = "xs @ a # ys @ b # zs"
  let ?db1 = "upsert_host_batch (map (\<lambda>ob. (ob_ip ob, ob_timestamp ob)) ?obs) db"
  let ?em = "existing_map ?obs db"
  let ?P = "\<lambda>ob. ?em (obs_key ob) = None"
  obtain ins ups hs where part: "partition_batch ?em ?obs = (ins, ups, hs)"
    by (cases "partition_batch ?em ?obs") auto
  have ins: "ins = map new_service (filter ?P ?obs)"
    using partition_batch_inserts[of ?em ?obs] part by simp
  have Pa: "?P a" and Pb: "?P b"
    using assms by (simp_all add: existing_map_absent)
  have "map svc_key ins = map obs_key (filter ?P ?obs)"
    by (simp add: ins comp_def svc_key_new_service)
  also have "\<dots> = map obs_key (filter ?P xs) @ obs_key a # map obs_key (filter ?P ys) @
                    obs_key b # map obs_key (filter ?P zs)"
    using Pa Pb by simp
  finally have "\<not> distinct (map svc_key ins)"
    using assms(1) by simp
  then have "insert_services ins ?db1 \<noteq> Inr db2" for db2
    using insert_services_Inr[of ins ?db1 db2] by blast
  then obtain e where "insert_services ins ?db1 = Inl e"
    by (cases "insert_services ins ?db1") auto
  then have "save_observation_batch ?obs db = Inl e"
    using part by (simp add: save_observation_batch_def Let_def)
  then show ?thesis by (cases e) simp
qed

text \<open>Two observations of \<open>1.2.3.4:22\<close> in one batch on a fresh database.\<close>

theorem duplicate_new_key_raises_witness:
  "save_observation_batch [e5_obs 1 ''open'' None, e5_obs 2 ''open'' None] empty_db = Inl IntegrityError"
  using duplicate_new_key_raises [of "e5_obs 1 ''open'' None" "e5_obs 2 ''open'' None" empty_db "[]" "[]" "[]"]
  by (simp add: e5_obs_def obs_key_def empty_db_def)

text \<open>Two observations of an existing key in one batch: both are updates, and both are
  compared with the row as it was before the batch, so the same banner change is
  recorded twice.\<close>

lemma double_update_run:
  "\<exists>db0 db1. save_observation_batch [e5_obs 1 ''open'' (Some ''SSH-2.0-A'')] empty_db = Inr db0 \<and>
      save_observation_batch [e5_obs 2 ''open'' (Some ''SSH-2.0-B''), e5_obs 3 ''open'' (Some ''SSH-2.0-B'')] db0 = Inr db1 \<and>
      map history_tuple (history db1) = [(1, 2, ''SSH-2.0-B'', ''open''), (1, 3, ''SSH-2.0-B'', ''open'')]"
  by (simp add: store_defs history_tuple_def)

subsection \<open>The fingerprinter's choice of rule\<close>

lemma match_evidence_cases:
  "match_evidence re_search ob location pattern = (False, None) \<or>
   (\<exists>g. match_evidence re_search ob location pattern = (True, Some g))"
  by (auto simp: match_evidence_def check_def split: option.splits)

lemma evaluate_loop_eq:
  "evaluate_loop re_search ob es (tot, details, lg) =
     (tot + sum_list (map (\<lambda>e. snd (snd e)) (filter (evidence_matches re_search ob) es)),
      details @ map (\<lambda>e. ''Matched '' @ fst e) (filter (evidence_matches re_search ob) es),
      (case rev (filter (evidence_matches re_search ob) es) of
         [] \<Rightarrow> lg
       | (location, pattern, weight) # _ \<Rightarrow> snd (match_evidence re_search ob location pattern)))"
proof (induction es arbitrary: tot details lg)
  case Nil
  then show ?case by simp
next
  case (Cons e es)
  obtain location pattern weight where e: "e = (location, pattern, weight)" by (cases e) auto
  from match_evidence_cases[of re_search ob location pattern]
  show ?case
  proof
    assume no: "match_evidence re_search ob location pattern = (False, None)"
    then show ?thesis using Cons.IH by (simp add: e evidence_matches_def)
  next
    assume "\<exists>g. match_evidence re_search ob location pattern = (True, Some g)"
    then obtain g where yes: "match_evidence re_search ob location pattern = (True, Some g)" by blast
    then have m: "evidence_matches re_search ob e" by (simp add: e evidence_matches_def)
    show ?thesis
      using yes m
      by (simp add: e Cons.IH split: list.splits)
  qed
qed


lemma evaluate_eq:
  "evaluate re_search rule ob =
     ((rule_score re_search ob rule,
       map (\<lambda>e. ''Matched '' @ fst e) (filter (evidence_matches re_search ob) (rule_evidence rule))),
      rule\<lparr>last_groups := (case last_match_groups re_search ob rule of
                               None \<Rightarrow> last_groups rule | Some g \<Rightarrow> Some g)\<rparr>)"
proof -
  have "(case rev (filter (evidence_matches re_search ob) (rule_evidence rule)) of
           [] \<Rightarrow> last_groups rule
         | (location, pattern, weight) # _ \<Rightarrow> snd (match_evidence re_search ob location pattern))
        = (case last_match_groups re_search ob rule of None \<Rightarrow> last_groups rule | Some g \<Rightarrow> Some g)"
  proof (cases "rev (filter (evidence_matches re_search ob) (rule_evidence rule))")
    case Nil
    then show ?thesis by (simp add: last_match_groups_def)
  next
    case (Cons e es)
    obtain location pattern weight where e: "e = (location, pattern, weight)" by (cases e) auto
    have "e \<in> set (filter (evidence_matches re_search ob) (rule_evidence rule))"
      using Cons by (metis list.set_intros(1) set_rev)
    then have "fst (match_evidence re_search ob location pattern)"
      by (simp add: e evidence_matches_def)
    then obtain g where "match_evidence re_search ob location pattern = (True, Some g)"
      using match_evidence_cases[of re_search ob location pattern] by auto
    then show ?thesis using Cons by (simp add: last_match_groups_def e)
  qed
  then show ?thesis
    by (simp add: evaluate_def evaluate_loop_eq rule_score_def)
qed

lemma positive_score_matches:
  assumes "0 < rule_score re_search ob rule"
  shows "\<exists>g. last_match_groups re_search ob rule = Some g"
proof (cases "rev (filter (evidence_matches re_search ob) (rule_evidence rule))")
  case Nil
  then have "filter (evidence_matches re_search ob) (rule_evidence rule) = []" by simp
  then show ?thesis using assms by (simp add: rule_score_def)
next
  case (Cons e es)
  obtain location pattern weight where e: "e = (location, pattern, weight)" by (cases e) auto
  have "e \<in> set (filter (evidence_matches re_search ob) (rule_evidence rule))"
    using Cons by (metis list.set_intros(1) set_rev)
  then have "fst (match_evidence re_search ob location pattern)"
    by (simp add: e evidence_matches_def)
  then obtain g where "match_evidence re_search ob location pattern = (True, Some g)"
    using match_evidence_cases[of re_search ob location pattern] by auto
  then show ?thesis using Cons by (simp add: last_match_groups_def e)
qed

lemma build_result_winner:
  assumes "0 < rule_score re_search ob rule"
  shows "build_result (Some (snd (evaluate re_search rule ob)), rule_score re_search ob rule,
                       snd (fst (evaluate re_search rule ob))) = winner_result re_search ob rule"
proof -
  from positive_score_matches[OF assms] obtain g where
    g: "last_match_groups re_search ob rule = Some g" by blast
  show ?thesis
    using assms by (simp add: build_result_def evaluate_eq winner_result_def g)
qed

text \<open>The loop, started with a best score \<open>s0\<close>: either no rule scores above \<open>s0\<close> and
  the start values come back, or the first rule of maximal score is chosen.\<close>

lemma analyze_loop_choice:
  "fst (analyze_loop re_search ob rules (b0, s0, d0)) = (b0, s0, d0) \<and>
     (\<forall>r \<in> set rules. rule_score re_search ob r \<le> s0) \<or>
   (\<exists>i < length rules.
      fst (analyze_loop re_search ob rules (b0, s0, d0)) =
        (Some (snd (evaluate re_search (rules ! i) ob)), rule_score re_search ob (rules ! i),
         snd (fst (evaluate re_search (rules ! i) ob))) \<and>
      s0 < rule_score re_search ob (rules ! i) \<and>
      (\<forall>j < i. rule_score re_search ob (rules ! j) < rule_score re_search ob (rules ! i)) \<and>
      (\<forall>j < length rules. rule_score re_search ob (rules ! j) \<le> rule_score re_search ob (rules ! i)))"
proof (induction rules arbitrary: b0 s0 d0)
  case Nil
  then show ?case by simp
next
  case (Cons rule rest)
  let ?sc = "\<lambda>r. rule_score re_search ob r"
  let ?ev = "\<lambda>r. (Some (snd (evaluate re_search r ob)), ?sc r, snd (fst (evaluate re_search r ob)))"
  define acc where "acc = (if ?sc rule > s0 then ?ev rule else (b0, s0, d0))"
  have step: "fst (analyze_loop re_search ob (rule # rest) (b0, s0, d0)) =
              fst (analyze_loop re_search ob rest acc)"
    by (simp add: acc_def evaluate_eq split: prod.splits)
  obtain b1 s1 d1 where acc1: "acc = (b1, s1, d1)" by (cases acc) auto
  have s1: "s1 = max s0 (?sc rule)" using acc1 by (auto simp: acc_def split: if_splits)
  from Cons.IH[of b1 s1 d1]
  show ?case
  proof
    assume keep: "fst (analyze_loop re_search ob rest (b1, s1, d1)) = (b1, s1, d1) \<and>
                  (\<forall>r \<in> set rest. ?sc r \<le> s1)"
    show ?thesis
    proof (cases "?sc rule > s0")
      case True
      then have a: "acc = ?ev rule" by (simp add: acc_def)
      have "fst (analyze_loop re_search ob (rule # rest) (b0, s0, d0)) = ?ev ((rule # rest) ! 0)"
        using step keep acc1 a by simp
      moreover have "\<forall>j < length (rule # rest). ?sc ((rule # rest) ! j) \<le> ?sc ((rule # rest) ! 0)"
      proof (intro allI impI)
        fix j assume "j < length (rule # rest)"
        then show "?sc ((rule # rest) ! j) \<le> ?sc ((rule # rest) ! 0)"
          using keep s1 True by (cases j) auto
      qed
      ultimately show ?thesis using True by (intro disjI2 exI[of _ 0]) simp
    next
      case False
      then have "acc = (b0, s0, d0)" by (simp add: acc_def)
      then show ?thesis using step keep acc1 s1 False by (intro disjI1) auto
    qed
  next
    assume "\<exists>i < length rest.
      fst (analyze_loop re_search ob rest (b1, s1, d1)) = ?ev (rest ! i) \<and>
      s1 < ?sc (rest ! i) \<and>
      (\<forall>j < i. ?sc (rest ! j) < ?sc (rest ! i)) \<and>
      (\<forall>j < length rest. ?sc (rest ! j) \<le> ?sc (rest ! i))"
    then obtain i where i: "i < length rest"
      "fst (analyze_loop re_search ob rest (b1, s1, d1)) = ?ev (rest ! i)"
      "s1 < ?sc (rest ! i)"
      "\<forall>j < i. ?sc (rest ! j) < ?sc (rest ! i)"
      "\<forall>j < length rest. ?sc (rest ! j) \<le> ?sc (rest ! i)" by blast
    have head: "?sc rule < ?sc (rest ! i)" "s0 < ?sc (rest ! i)" using i(3) s1 by auto
    have "fst (analyze_loop re_search ob (rule # rest) (b0, s0, d0)) = ?ev ((rule # rest) ! Suc i)"
      using step acc1 i(2) by simp
    moreover have "\<forall>j < Suc i. ?sc ((rule # rest) ! j) < ?sc ((rule # rest) ! Suc i)"
    proof (intro allI impI)
      fix j assume "j < Suc i"
      then show "?sc ((rule # rest) ! j) < ?sc ((rule # rest) ! Suc i)"
        using head i(4) by (cases j) auto
    qed
    moreover have "\<forall>j < length (rule # rest). ?sc ((rule # rest) ! j) \<le> ?sc ((rule # rest) ! Suc i)"
    proof (intro allI impI)
      fix j assume "j < length (rule # rest)"
      then show "?sc ((rule # rest) ! j) \<le> ?sc ((rule # rest) ! Suc i)"
        using head i(5) by (cases j) auto
    qed
    moreover have "Suc i < length (rule # rest)" using i(1) by simp
    ultimately show ?thesis using head(2) by (intro disjI2 exI[of _ "Suc i"]) simp
  qed
qed

lemma analyze_unknown:
  assumes "\<forall>r \<in> set rules. rule_score re_search ob r \<le> 0"
  shows "fst (analyze re_search rules ob) = unknown_result"
proof -
  from analyze_loop_choice[of re_search ob rules None 0 "[]"]
  have "fst (analyze_loop re_search ob rules (None, 0, [])) = (None, 0, [])"
  proof
    assume "fst (analyze_loop re_search ob rules (None, 0, [])) = (None, 0, []) \<and>
            (\<forall>r \<in> set rules. rule_score re_search ob r \<le> 0)"
    then show ?thesis by simp
  next
    assume "\<exists>i < length rules.
      fst (analyze_loop re_search ob rules (None, 0, [])) =
        (Some (snd (evaluate re_search (rules ! i) ob)), rule_score re_search ob (rules ! i),
         snd (fst (evaluate re_search (rules ! i) ob))) \<and>
      0 < rule_score re_search ob (rules ! i) \<and>
      (\<forall>j < i. rule_score re_search ob (rules ! j) < rule_score re_search ob (rules ! i)) \<and>
      (\<forall>j < length rules. rule_score re_search ob (rules ! j) \<le> rule_score re_search ob (rules ! i))"
    then obtain i where "i < length rules" "0 < rule_score re_search ob (rules ! i)" by blast
    then show ?thesis using assms by (metis not_less nth_mem)
  qed
  moreover have "fst (analyze re_search rules ob) =
            build_result (fst (analyze_loop re_search ob rules (None, 0, [])))"
    by (simp add: analyze_def split: prod.splits)
  ultimately show ?thesis by (simp add: build_result_def)
qed

lemma analyze_winner:
  assumes "\<exists>r \<in> set rules. 0 < rule_score re_search ob r"
  shows "\<exists>i < length rules.
      fst (analyze re_search rules ob) = winner_result re_search ob (rules ! i) \<and>
      0 < rule_score re_search ob (rules ! i) \<and>
      (\<forall>j < i. rule_score re_search ob (rules ! j) < rule_score re_search ob (rules ! i)) \<and>
      (\<forall>j < length rules. rule_score re_search ob (rules ! j) \<le> rule_score re_search ob (rules ! i))"
proof -
  from analyze_loop_choice[of re_search ob rules None 0 "[]"]
  show ?thesis
  proof
    assume "fst (analyze_loop re_search ob rules (None, 0, [])) = (None, 0, []) \<and>
            (\<forall>r \<in> set rules. rule_score re_search ob r \<le> 0)"
    then show ?thesis using assms by (meson not_less)
  next
    assume "\<exists>i < length rules.
      fst (analyze_loop re_search ob rules (None, 0, [])) =
        (Some (snd (evaluate re_search (rules ! i) ob)), rule_score re_search ob (rules ! i),
         snd (fst (evaluate re_search (rules ! i) ob))) \<and>
      0 < rule_score re_search ob (rules ! i) \<and>
      (\<forall>j < i. rule_score re_search ob (rules ! j) < rule_score re_search ob (rules ! i)) \<and>
      (\<forall>j < length rules. rule_score re_search ob (rules ! j) \<le> rule_score re_search ob (rules ! i))"
    then obtain i where i: "i < length rules"
      "fst (analyze_loop re_search ob rules (None, 0, [])) =
        (Some (snd (evaluate re_search (rules ! i) ob)), rule_score re_search ob (rules ! i),
         snd (fst (evaluate re_search (rules ! i) ob)))"
      "0 < rule_score re_search ob (rules ! i)"
      "\<forall>j < i. rule_score re_search ob (rules ! j) < rule_score re_search ob (rules ! i)"
      "\<forall>j < length rules. rule_score re_search ob (rules ! j) \<le> rule_score re_search ob (rules ! i)"
      by blast
    have "fst (analyze re_search rules ob) =
            build_result (fst (analyze_loop re_search ob rules (None, 0, [])))"
      by (simp add: analyze_def split: prod.splits)
    also have "\<dots> = winner_result re_search ob (rules ! i)"
      unfolding i(2) by (rule build_result_winner[OF i(3)])
    finally show ?thesis using i by blast
  qed
qed


lemma rule_score_le: "rule_score re_search ob rule \<le> 100"
  by (simp add: rule_score_def)

text \<open>
  C3. For every observation, every rule list and every regular-expression search:
  \<open>evaluate\<close> returns for each rule the sum of the weights of its matching evidence,
  capped at 100 (\<open>rule_score\<close>); the confidence of the result of \<open>analyze\<close> lies between 0
  and 100; if some rule scores above 0, the result carries the type, vendor, product,
  tags and score of a rule whose score is maximal over all rules and strictly greater
  than that of every rule declared before it (so ties go to the earliest declared
  rule); and if no rule scores above 0, the result has service type, vendor and product
  \<open>unknown\<close> and confidence 0.
\<close>

theorem analyze_confidence_and_choice:
  "(\<forall>rule. fst (fst (evaluate re_search rule ob)) = rule_score re_search ob rule) \<and>
   0 \<le> res_confidence (fst (analyze re_search rules ob)) \<and>
   res_confidence (fst (analyze re_search rules ob)) \<le> 100 \<and>
   ((\<exists>r \<in> set rules. 0 < rule_score re_search ob r) \<longrightarrow>
      (\<exists>i < length rules.
         (\<forall>j < length rules. rule_score re_search ob (rules ! j) \<le> rule_score re_search ob (rules ! i)) \<and>
         (\<forall>j < i. rule_score re_search ob (rules ! j) < rule_score re_search ob (rules ! i)) \<and>
         res_confidence (fst (analyze re_search rules ob)) = rule_score re_search ob (rules ! i) \<and>
         res_service_type (fst (analyze re_search rules ob)) = rule_type (rules ! i) \<and>
         res_vendor (fst (analyze re_search rules ob)) = or_unknown (rule_vendor (rules ! i)) \<and>
         res_product (fst (analyze re_search rules ob)) = or_unknown (rule_product (rules ! i)) \<and>
         res_tags (fst (analyze re_search rules ob)) = rule_tags (rules ! i))) \<and>
   ((\<forall>r \<in> set rules. rule_score re_search ob r \<le> 0) \<longrightarrow>
      res_service_type (fst (analyze re_search rules ob)) = ''unknown'' \<and>
      res_vendor (fst (analyze re_search rules ob)) = ''unknown'' \<and>
      res_product (fst (analyze re_search rules ob)) = ''unknown'' \<and>
      res_confidence (fst (analyze re_search rules ob)) = 0)"
proof -
  have win: "\<exists>i < length rules.
         (\<forall>j < length rules. rule_score re_search ob (rules ! j) \<le> rule_score re_search ob (rules ! i)) \<and>
         (\<forall>j < i. rule_score re_search ob (rules ! j) < rule_score re_search ob (rules ! i)) \<and>
         res_confidence (fst (analyze re_search rules ob)) = rule_score re_search ob (rules ! i) \<and>
         0 < res_confidence (fst (analyze re_search rules ob)) \<and>
         res_service_type (fst (analyze re_search rules ob)) = rule_type (rules ! i) \<and>
         res_vendor (fst (analyze re_search rules ob)) = or_unknown (rule_vendor (rules ! i)) \<and>
         res_product (fst (analyze re_search rules ob)) = or_unknown (rule_product (rules ! i)) \<and>
         res_tags (fst (analyze re_search rules ob)) = rule_tags (rules ! i)"
    if "\<exists>r \<in> set rules. 0 < rule_score re_search ob r"
  proof -
    from analyze_winner[OF that] obtain i where i: "i < length rules"
      "fst (analyze re_search rules ob) = winner_result re_search ob (rules ! i)"
      "0 < rule_score re_search ob (rules ! i)"
      "\<forall>j < i. rule_score re_search ob (rules ! j) < rule_score re_search ob (rules ! i)"
      "\<forall>j < length rules. rule_score re_search ob (rules ! j) \<le> rule_score re_search ob (rules ! i)"
      by blast
    show ?thesis
      using i(1,3,4,5) unfolding i(2)
      by (intro exI[of _ i]) (simp add: winner_result_def)
  qed
  have unk: "fst (analyze re_search rules ob) = unknown_result"
    if "\<forall>r \<in> set rules. rule_score re_search ob r \<le> 0"
    using analyze_unknown[OF that] .
  have range: "0 \<le> res_confidence (fst (analyze re_search rules ob)) \<and>
               res_confidence (fst (analyze re_search rules ob)) \<le> 100"
  proof (cases "\<exists>r \<in> set rules. 0 < rule_score re_search ob r")
    case True
    from win[OF True] show ?thesis using rule_score_le[of re_search ob] by auto
  next
    case False
    then have "\<forall>r \<in> set rules. rule_score re_search ob r \<le> 0" by (meson not_less)
    from unk[OF this] show ?thesis by (simp add: unknown_result_def)
  qed
  show ?thesis
  proof (intro conjI impI)
    show "\<forall>rule. fst (fst (evaluate re_search rule ob)) = rule_score re_search ob rule"
      by (simp add: evaluate_eq)
  next
    show "0 \<le> res_confidence (fst (analyze re_search rules ob))" using range by simp
    show "res_confidence (fst (analyze re_search rules ob)) \<le> 100" using range by simp
  next
    assume "\<exists>r \<in> set rules. 0 < rule_score re_search ob r"
    from win[OF this] show "\<exists>i < length rules.
         (\<forall>j < length rules. rule_score re_search ob (rules ! j) \<le> rule_score re_search ob (rules ! i)) \<and>
         (\<forall>j < i. rule_score re_search ob (rules ! j) < rule_score re_search ob (rules ! i)) \<and>
         res_confidence (fst (analyze re_search rules ob)) = rule_score re_search ob (rules ! i) \<and>
         res_service_type (fst (analyze re_search rules ob)) = rule_type (rules ! i) \<and>
         res_vendor (fst (analyze re_search rules ob)) = or_unknown (rule_vendor (rules ! i)) \<and>
         res_product (fst (analyze re_search rules ob)) = or_unknown (rule_product (rules ! i)) \<and>
         res_tags (fst (analyze re_search rules ob)) = rule_tags (rules ! i)"
      by blast
  next
    assume a: "\<forall>r \<in> set rules. rule_score re_search ob r \<le> 0"
    show "res_service_type (fst (analyze re_search rules ob)) = ''unknown''"
      "res_vendor (fst (analyze re_search rules ob)) = ''unknown''"
      "res_product (fst (analyze re_search rules ob)) = ''unknown''"
      "res_confidence (fst (analyze re_search rules ob)) = 0"
      using unk[OF a] by (simp_all add: unknown_result_def)
  qed
qed

subsection \<open>The built-in rules on concrete observations\<close>

lemma repeat_rx_numeral: "repeat_rx (numeral k) r = Seq r (repeat_rx (pred_numeral k) r)"
  by (simp add: numeral_eq_Suc)

lemmas rx_defs = mini_search_def escape_cls_def char_code_def lower_code_def is_digit_def
  is_word_def BS_def repeat_rx_numeral

lemmas fp_defs = analyze_def build_result_def evaluate_def match_evidence_def check_def
  first_group_def or_unknown_def unknown_result_def str_lower_def lower_char_def
  FingerprintRule_def add_evidence_def fp_obs_def

lemmas rule_defs = RULES_def r_apache_def r_nginx_def r_hik_def r_ssh_def r_gen_http_def
  r_gen_rtsp_def r_vnc_def r_ftp_def r_caddy_def r_dahua_def r_ha_def

lemmas score_defs = rule_score_def evidence_matches_def last_match_groups_def

text \<open>Scenario E4 of the specification.\<close>

lemma e4_run:
  "fst (analyze mini_search RULES e4_obs) =
     \<lparr>res_service_type = ''http'', res_vendor = ''Apache'', res_product = ''HTTP Server'',
      res_version = Some ''2.4.41'', res_tags = [], res_confidence = 100,
      res_evidence = [''Matched banner'', ''Matched banner'']\<rparr>"
  by (simp add: e4_obs_def fp_defs rule_defs rx_defs)

lemma e4_apache_score: "rule_score mini_search e4_obs r_apache = 100"
  by (simp add: score_defs e4_obs_def fp_defs r_apache_def rx_defs)

lemma silent_scores: "list_all (\<lambda>r. rule_score mini_search silent_obs r \<le> 0) RULES"
  by (simp add: score_defs silent_obs_def fp_defs rule_defs)

lemma served_run:
  "fst (analyze mini_search RULES served_obs) =
     \<lparr>res_service_type = ''http'', res_vendor = ''Apache'', res_product = ''HTTP Server'',
      res_version = None, res_tags = [], res_confidence = 100,
      res_evidence = [''Matched banner'', ''Matched banner'', ''Matched header:server'']\<rparr>"
  by (simp add: served_obs_def CRLF_def fp_defs rule_defs rx_defs split_on.simps)

lemma served_groups:
  "match_evidence mini_search served_obs ''banner'' (''Apache/(['' @ BS @ ''d'' @ BS @ ''.]+)'') =
     (True, Some [Some ''2.4.41''])"
  "match_evidence mini_search served_obs ''header:server'' ''Apache'' = (True, Some [])"
  "last_match_groups mini_search served_obs r_apache = Some []"
  by (simp_all add: score_defs served_obs_def CRLF_def fp_defs r_apache_def rx_defs split_on.simps)

text \<open>A second call on the same rule objects: the captures of the first call are
  gone.\<close>

lemma bare_after_e4:
  "fst (analyze mini_search (snd (analyze mini_search RULES e4_obs)) bare_obs) =
     \<lparr>res_service_type = ''http'', res_vendor = ''Apache'', res_product = ''HTTP Server'',
      res_version = None, res_tags = [], res_confidence = 40,
      res_evidence = [''Matched banner'']\<rparr>"
  by (simp add: bare_obs_def e4_obs_def fp_defs rule_defs rx_defs)

text \<open>Scenario E4 has a rule scoring above 0; the observation without text has
  none.\<close>

theorem analyze_confidence_and_choice_witness:
  "r_apache \<in> set RULES \<and> 0 < rule_score mini_search e4_obs r_apache \<and>
   res_confidence (fst (analyze mini_search RULES e4_obs)) = 100 \<and>
   res_service_type (fst (analyze mini_search RULES e4_obs)) = ''http'' \<and>
   list_all (\<lambda>r. rule_score mini_search silent_obs r \<le> 0) RULES \<and>
   res_service_type (fst (analyze mini_search RULES silent_obs)) = ''unknown'' \<and>
   res_vendor (fst (analyze mini_search RULES silent_obs)) = ''unknown'' \<and>
   res_product (fst (analyze mini_search RULES silent_obs)) = ''unknown'' \<and>
   res_confidence (fst (analyze mini_search RULES silent_obs)) = 0"
  using analyze_confidence_and_choice[where re_search = mini_search and rules = RULES and ob = silent_obs]
    analyze_confidence_and_choice[where re_search = mini_search and rules = RULES and ob = e4_obs]
    silent_scores e4_apache_score e4_run
  by (simp add: list_all_iff RULES_def)

subsection \<open>Version extraction\<close>

lemma as_declared_fields:
  assumes "as_declared r' = as_declared r"
  shows "rule_evidence r' = rule_evidence r" "rule_type r' = rule_type r"
    "rule_vendor r' = rule_vendor r" "rule_product r' = rule_product r"
    "rule_tags r' = rule_tags r"
proof -
  have "rule_evidence (as_declared r') = rule_evidence (as_declared r)"
       "rule_type (as_declared r') = rule_type (as_declared r)"
       "rule_vendor (as_declared r') = rule_vendor (as_declared r)"
       "rule_product (as_declared r') = rule_product (as_declared r)"
       "rule_tags (as_declared r') = rule_tags (as_declared r)"
    using assms by simp_all
  then show "rule_evidence r' = rule_evidence r" "rule_type r' = rule_type r"
    "rule_vendor r' = rule_vendor r" "rule_product r' = rule_product r"
    "rule_tags r' = rule_tags r"
    by (simp_all add: as_declared_def)
qed

lemma as_declared_score:
  assumes "as_declared r' = as_declared r"
  shows "rule_score re_search ob r' = rule_score re_search ob r"
  using as_declared_fields(1)[OF assms] by (simp add: rule_score_def)

lemma as_declared_winner:
  assumes "as_declared r' = as_declared r"
  shows "winner_result re_search ob r' = winner_result re_search ob r"
  using as_declared_fields[OF assms]
  by (simp add: winner_result_def rule_score_def last_match_groups_def)

lemma as_declared_evaluate: "as_declared (snd (evaluate re_search r ob)) = as_declared r"
  by (simp add: evaluate_eq as_declared_def)

lemma analyze_loop_rules:
  "snd (analyze_loop re_search ob rules acc) = map (\<lambda>r. snd (evaluate re_search r ob)) rules"
proof (induction rules arbitrary: acc)
  case Nil
  then show ?case by simp
next
  case (Cons rule rest)
  obtain b s d where acc: "acc = (b, s, d)" by (cases acc) auto
  show ?case
    using Cons.IH by (simp add: acc split: prod.splits) (metis snd_conv)
qed

lemma analyze_rules:
  "snd (analyze re_search rules ob) = map (\<lambda>r. snd (evaluate re_search r ob)) rules"
proof -
  have "snd (analyze re_search rules ob) = snd (analyze_loop re_search ob rules (None, 0, []))"
    by (simp add: analyze_def split: prod.splits)
  then show ?thesis by (simp add: analyze_loop_rules)
qed

lemma first_maximal_unique:
  fixes f :: "nat \<Rightarrow> int"
  assumes "i < n" "i' < n"
    "\<forall>j < i. f j < f i" "\<forall>j < n. f j \<le> f i"
    "\<forall>j < i'. f j < f i'" "\<forall>j < n. f j \<le> f i'"
  shows "i = i'"
proof (rule ccontr)
  assume "i \<noteq> i'"
  then consider "i < i'" | "i' < i" by linarith
  then show False
  proof cases
    case 1
    then have "f i < f i'" using assms(5) by simp
    moreover have "f i' \<le> f i" using assms(2,4) by simp
    ultimately show False by simp
  next
    case 2
    then have "f i' < f i" using assms(3) by simp
    moreover have "f i \<le> f i'" using assms(1,6) by simp
    ultimately show False by simp
  qed
qed

lemma analyze_as_declared:
  assumes same: "map as_declared rules' = map as_declared rules"
  shows "fst (analyze re_search rules' ob) = fst (analyze re_search rules ob)"
proof -
  have len: "length rules' = length rules" using same by (metis length_map)
  have nth: "as_declared (rules' ! j) = as_declared (rules ! j)" if "j < length rules" for j
    using same that len by (metis nth_map)
  have sc: "rule_score re_search ob (rules' ! j) = rule_score re_search ob (rules ! j)"
    if "j < length rules" for j
    using as_declared_score[OF nth[OF that]] .
  show ?thesis
  proof (cases "\<exists>r \<in> set rules. 0 < rule_score re_search ob r")
    case True
    then obtain k where k: "k < length rules" "0 < rule_score re_search ob (rules ! k)"
      by (metis in_set_conv_nth)
    then have "0 < rule_score re_search ob (rules' ! k)" using sc by simp
    then have True': "\<exists>r \<in> set rules'. 0 < rule_score re_search ob r"
      using k(1) len by (metis nth_mem)
    from analyze_winner[OF True] obtain i where i: "i < length rules"
      "fst (analyze re_search rules ob) = winner_result re_search ob (rules ! i)"
      "\<forall>j < i. rule_score re_search ob (rules ! j) < rule_score re_search ob (rules ! i)"
      "\<forall>j < length rules. rule_score re_search ob (rules ! j) \<le> rule_score re_search ob (rules ! i)"
      by blast
    from analyze_winner[OF True'] obtain i' where i': "i' < length rules"
      "fst (analyze re_search rules' ob) = winner_result re_search ob (rules' ! i')"
      "\<forall>j < i'. rule_score re_search ob (rules' ! j) < rule_score re_search ob (rules' ! i')"
      "\<forall>j < length rules. rule_score re_search ob (rules' ! j) \<le> rule_score re_search ob (rules' ! i')"
      using len by auto
    have a: "\<forall>j < i'. rule_score re_search ob (rules ! j) < rule_score re_search ob (rules ! i')"
      using i'(1,3) sc by simp
    have b: "\<forall>j < length rules. rule_score re_search ob (rules ! j) \<le> rule_score re_search ob (rules ! i')"
      using i'(1,4) sc by simp
    have "i = i'"
      using first_maximal_unique[of i "length rules" i' "\<lambda>j. rule_score re_search ob (rules ! j)"]
        i(1,3,4) i'(1) a b by blast
    then show ?thesis
      using i(2) i'(2) as_declared_winner[OF nth[OF i(1)]] by simp
  next
    case False
    then have all: "\<forall>r \<in> set rules. rule_score re_search ob r \<le> 0" by (meson not_less)
    have all': "\<forall>r \<in> set rules'. rule_score re_search ob r \<le> 0"
    proof
      fix r assume "r \<in> set rules'"
      then obtain j where j: "j < length rules" "r = rules' ! j"
        using len by (metis in_set_conv_nth)
      then show "rule_score re_search ob r \<le> 0" using sc[OF j(1)] all by simp
    qed
    show ?thesis using analyze_unknown[OF all] analyze_unknown[OF all'] by simp
  qed
qed

lemma analyze_after_analyze:
  "fst (analyze re_search (snd (analyze re_search rules ob0)) ob) = fst (analyze re_search rules ob)"
proof (rule analyze_as_declared)
  show "map as_declared (snd (analyze re_search rules ob0)) = map as_declared rules"
    by (simp add: analyze_rules as_declared_evaluate)
qed

text \<open>The captures of the last matching entry are captures of a matching entry.\<close>

lemma last_match_groups_entry:
  assumes "last_match_groups re_search ob rule = Some g"
  shows "\<exists>e \<in> set (rule_evidence rule). evidence_matches re_search ob e \<and>
           snd (match_evidence re_search ob (fst e) (fst (snd e))) = Some g"
proof (cases "rev (filter (evidence_matches re_search ob) (rule_evidence rule))")
  case Nil
  then show ?thesis using assms by (simp add: last_match_groups_def)
next
  case (Cons e es)
  have "e \<in> set (filter (evidence_matches re_search ob) (rule_evidence rule))"
    using Cons by (metis list.set_intros(1) set_rev)
  then have "e \<in> set (rule_evidence rule)" "evidence_matches re_search ob e" by simp_all
  moreover have "snd (match_evidence re_search ob (fst e) (fst (snd e))) = Some g"
    using assms Cons by (simp add: last_match_groups_def split: prod.splits)
  ultimately show ?thesis by blast
qed

text \<open>
  What \<open>analyze\<close> returns as version, for every observation, rule list and search:
  \<open>evaluate\<close> overwrites \<open>last_groups\<close> at every matching entry, so after the call it holds
  the captures of the last matching entry; the version of the result is the first
  capture of the last matching entry of the chosen rule, and \<open>None\<close> when that entry's
  pattern has no group or when no rule scores above 0. The result does not depend on
  the \<open>last_groups\<close> the rule objects hold before the call, in particular not on earlier
  calls of \<open>analyze\<close>.
\<close>

theorem version_from_last_match:
  "(\<forall>rule. last_groups (snd (evaluate re_search rule ob)) =
       (case last_match_groups re_search ob rule of
          None \<Rightarrow> last_groups rule | Some g \<Rightarrow> Some g)) \<and>
   ((\<exists>r \<in> set rules. 0 < rule_score re_search ob r) \<longrightarrow>
      (\<exists>i < length rules.
         (\<forall>j < length rules. rule_score re_search ob (rules ! j) \<le> rule_score re_search ob (rules ! i)) \<and>
         (\<forall>j < i. rule_score re_search ob (rules ! j) < rule_score re_search ob (rules ! i)) \<and>
         res_service_type (fst (analyze re_search rules ob)) = rule_type (rules ! i) \<and>
         (\<exists>g. last_match_groups re_search ob (rules ! i) = Some g \<and>
              res_version (fst (analyze re_search rules ob)) =
                (case g of [] \<Rightarrow> None | v # _ \<Rightarrow> v)))) \<and>
   ((\<forall>r \<in> set rules. rule_score re_search ob r \<le> 0) \<longrightarrow>
      res_version (fst (analyze re_search rules ob)) = None) \<and>
   (map as_declared rules' = map as_declared rules \<longrightarrow>
      fst (analyze re_search rules' ob) = fst (analyze re_search rules ob)) \<and>
   fst (analyze re_search (snd (analyze re_search rules ob0)) ob) =
     fst (analyze re_search rules ob)"
proof (intro conjI impI allI)
  fix rule
  show "last_groups (snd (evaluate re_search rule ob)) =
       (case last_match_groups re_search ob rule of
          None \<Rightarrow> last_groups rule | Some g \<Rightarrow> Some g)"
    by (simp add: evaluate_eq)
next
  assume pos: "\<exists>r \<in> set rules. 0 < rule_score re_search ob r"
  from analyze_winner[OF pos] obtain i where i: "i < length rules"
    "fst (analyze re_search rules ob) = winner_result re_search ob (rules ! i)"
    "0 < rule_score re_search ob (rules ! i)"
    "\<forall>j < i. rule_score re_search ob (rules ! j) < rule_score re_search ob (rules ! i)"
    "\<forall>j < length rules. rule_score re_search ob (rules ! j) \<le> rule_score re_search ob (rules ! i)"
    by blast
  from positive_score_matches[OF i(3)] obtain g where
    g: "last_match_groups re_search ob (rules ! i) = Some g" by blast
  have "res_version (fst (analyze re_search rules ob)) = (case g of [] \<Rightarrow> None | v # _ \<Rightarrow> v)"
    unfolding i(2) by (simp add: winner_result_def g first_group_def split: list.splits)
  moreover have "res_service_type (fst (analyze re_search rules ob)) = rule_type (rules ! i)"
    unfolding i(2) by (simp add: winner_result_def)
  ultimately show "\<exists>i < length rules.
         (\<forall>j < length rules. rule_score re_search ob (rules ! j) \<le> rule_score re_search ob (rules ! i)) \<and>
         (\<forall>j < i. rule_score re_search ob (rules ! j) < rule_score re_search ob (rules ! i)) \<and>
         res_service_type (fst (analyze re_search rules ob)) = rule_type (rules ! i) \<and>
         (\<exists>g. last_match_groups re_search ob (rules ! i) = Some g \<and>
              res_version (fst (analyze re_search rules ob)) =
                (case g of [] \<Rightarrow> None | v # _ \<Rightarrow> v))"
    using i(1,4,5) g by (intro exI[of _ i]) simp
next
  assume "\<forall>r \<in> set rules. rule_score re_search ob r \<le> 0"
  from analyze_unknown[OF this]
  show "res_version (fst (analyze re_search rules ob)) = None"
    by (simp add: unknown_result_def)
next
  assume "map as_declared rules' = map as_declared rules"
  then show "fst (analyze re_search rules' ob) = fst (analyze re_search rules ob)"
    by (rule analyze_as_declared)
next
  show "fst (analyze re_search (snd (analyze re_search rules ob0)) ob) =
     fst (analyze re_search rules ob)"
    by (rule analyze_after_analyze)
qed

theorem version_from_last_match_witness:
  "r_apache \<in> set RULES \<and> 0 < rule_score mini_search e4_obs r_apache \<and>
   res_version (fst (analyze mini_search RULES e4_obs)) = Some ''2.4.41'' \<and>
   list_all (\<lambda>r. rule_score mini_search silent_obs r \<le> 0) RULES \<and>
   res_version (fst (analyze mini_search RULES silent_obs)) = None \<and>
   map as_declared (snd (analyze mini_search RULES e4_obs)) = map as_declared RULES \<and>
   res_version (fst (analyze mini_search (snd (analyze mini_search RULES e4_obs)) bare_obs)) = None \<and>
   res_version (fst (analyze mini_search RULES bare_obs)) = None"
  using version_from_last_match[of mini_search silent_obs RULES RULES silent_obs]
    version_from_last_match[of mini_search bare_obs RULES
      "snd (analyze mini_search RULES e4_obs)" e4_obs]
    silent_scores e4_apache_score e4_run bare_after_e4
  by (simp add: list_all_iff analyze_rules as_declared_evaluate RULES_def)

text \<open>
  C4. The version is lost when a pattern without a group matches after one with a
  group. For the observation that the HTTP probe makes of an Apache response with the
  header \<open>Server: Apache/2.4.41 (Ubuntu)\<close>, the rule \<open>Apache\<close> wins with three matching
  entries: the banner patterns \<open>Apache\<close> and \<^verbatim>\<open>Apache/([\d\.]+)\<close>, the second with the
  capture \<open>2.4.41\<close>, and then the header pattern \<open>Apache\<close>, which has no group. A matched
  pattern of the winning rule contained a capture group, yet the returned version is
  \<open>None\<close>: the match object is always true, so \<open>if groups:\<close> lets the last entry replace
  the captures by the empty tuple. With the banner alone (scenario E4) the version is
  \<open>2.4.41\<close>.
\<close>

theorem version_lost_after_groupless_match:
  "fst (analyze mini_search RULES served_obs) =
     \<lparr>res_service_type = ''http'', res_vendor = ''Apache'', res_product = ''HTTP Server'',
      res_version = None, res_tags = [], res_confidence = 100,
      res_evidence = [''Matched banner'', ''Matched banner'', ''Matched header:server'']\<rparr> \<and>
   RULES ! 0 = r_apache \<and>
   rule_evidence r_apache =
     [(''banner'', ''Apache'', 40),
      (''banner'', ''Apache/(['' @ BS @ ''d'' @ BS @ ''.]+)'', 60),
      (''header:server'', ''Apache'', 30)] \<and>
   match_evidence mini_search served_obs ''banner'' (''Apache/(['' @ BS @ ''d'' @ BS @ ''.]+)'') =
     (True, Some [Some ''2.4.41'']) \<and>
   match_evidence mini_search served_obs ''header:server'' ''Apache'' = (True, Some []) \<and>
   res_version (fst (analyze mini_search RULES e4_obs)) = Some ''2.4.41''"
  using served_run served_groups e4_run
  by (simp add: RULES_def r_apache_def add_evidence_def FingerprintRule_def)

subsection \<open>What the probes make of a failure\<close>

lemmas io_defs = io_bind_def io_try_def io_return_def io_raise_def await_def open_connection_def
  reader_read_def writer_write_def writer_drain_def writer_wait_closed_def time_time_def
  Observation_def closed_observation_def

text \<open>The observation of the \<open>except Exception\<close> clause when the connection fails.\<close>

lemma HTTPProbe_connect_fault:
  assumes "script w = Inl e # rest"
  shows "HTTPProbe_run lib port ip w =
      (Inr \<lparr>obs_ip = ip, obs_port = port, obs_protocol = ''tcp'', obs_service = ''http'',
        obs_latency_ms = (clock lib (Suc (clock_reads w)) - clock lib (clock_reads w)) * 1000,
        obs_status = ''closed'', obs_timestamp = clock lib (Suc (Suc (clock_reads w))),
        obs_error_reason = Some (str_exn e), obs_banner = None, obs_headers = Map.empty,
        obs_body = None, obs_cert_info = Map.empty, obs_response_code = None\<rparr>,
       w\<lparr>script := rest, clock_reads := clock_reads w + 3\<rparr>)"
  using assms by (simp add: HTTPProbe_run_def io_defs Let_def)

lemma VNCProbe_connect_fault:
  assumes "script w = Inl e # rest"
  shows "VNCProbe_run lib port ip w =
      (Inr \<lparr>obs_ip = ip, obs_port = port, obs_protocol = ''tcp'', obs_service = ''vnc'',
        obs_latency_ms = (clock lib (Suc (clock_reads w)) - clock lib (clock_reads w)) * 1000,
        obs_status = ''closed'', obs_timestamp = clock lib (Suc (Suc (clock_reads w))),
        obs_error_reason = Some (str_exn e), obs_banner = None, obs_headers = Map.empty,
        obs_body = None, obs_cert_info = Map.empty, obs_response_code = None\<rparr>,
       w\<lparr>script := rest, clock_reads := clock_reads w + 3\<rparr>)"
  using assms by (simp add: VNCProbe_run_def io_defs)

lemma FTPProbe_connect_fault:
  assumes "script w = Inl e # rest"
  shows "FTPProbe_run lib port ip w =
      (Inr \<lparr>obs_ip = ip, obs_port = port, obs_protocol = ''tcp'', obs_service = ''ftp'',
        obs_latency_ms = (clock lib (Suc (clock_reads w)) - clock lib (clock_reads w)) * 1000,
        obs_status = ''closed'', obs_timestamp = clock lib (Suc (Suc (clock_reads w))),
        obs_error_reason = Some (str_exn e), obs_banner = None, obs_headers = Map.empty,
        obs_body = None, obs_cert_info = Map.empty, obs_response_code = None\<rparr>,
       w\<lparr>script := rest, clock_reads := clock_reads w + 3\<rparr>)"
  using assms by (simp add: FTPProbe_run_def io_defs)

lemma SSHProbe_connect_fault:
  assumes "script w = Inl e # rest"
  shows "SSHProbe_run lib port ip w =
      (Inr \<lparr>obs_ip = ip, obs_port = port, obs_protocol = ''tcp'', obs_service = ''ssh'',
        obs_latency_ms = (clock lib (Suc (clock_reads w)) - clock lib (clock_reads w)) * 1000,
        obs_status = ''closed'', obs_timestamp = clock lib (Suc (Suc (clock_reads w))),
        obs_error_reason = Some (str_exn e), obs_banner = None, obs_headers = Map.empty,
        obs_body = None, obs_cert_info = Map.empty, obs_response_code = None\<rparr>,
       w\<lparr>script := rest, clock_reads := clock_reads w + 3\<rparr>)"
  using assms by (simp add: SSHProbe_run_def io_defs)

lemma RTSPProbe_connect_fault:
  assumes "script w = Inl e # rest"
  shows "RTSPProbe_run lib port ip w =
      (Inr \<lparr>obs_ip = ip, obs_port = port, obs_protocol = ''tcp'', obs_service = ''rtsp'',
        obs_latency_ms = (clock lib (Suc (clock_reads w)) - clock lib (clock_reads w)) * 1000,
        obs_status = ''closed'', obs_timestamp = clock lib (Suc (Suc (clock_reads w))),
        obs_error_reason = Some (str_exn e), obs_banner = None, obs_headers = Map.empty,
        obs_body = None, obs_cert_info = Map.empty, obs_response_code = None\<rparr>,
       w\<lparr>script := rest, clock_reads := clock_reads w + 3\<rparr>)"
  using assms by (simp add: RTSPProbe_run_def io_defs)

lemma TelnetProbe_connect_fault:
  assumes "script w = Inl e # rest"
  shows "TelnetProbe_run lib port ip w =
      (Inr \<lparr>obs_ip = ip, obs_port = port, obs_protocol = ''tcp'', obs_service = ''telnet'',
        obs_latency_ms = (clock lib (Suc (clock_reads w)) - clock lib (clock_reads w)) * 1000,
        obs_status = ''closed'', obs_timestamp = clock lib (Suc (Suc (clock_reads w))),
        obs_error_reason = Some (str_exn e), obs_banner = None, obs_headers = Map.empty,
        obs_body = None, obs_cert_info = Map.empty, obs_response_code = None\<rparr>,
       w\<lparr>script := rest, clock_reads := clock_reads w + 3\<rparr>)"
  using assms by (simp add: TelnetProbe_run_def io_defs)

lemma MQTTProbe_connect_fault:
  assumes "script w = Inl e # rest"
  shows "MQTTProbe_run lib port ip w =
      (Inr \<lparr>obs_ip = ip, obs_port = port, obs_protocol = ''tcp'', obs_service = ''mqtt'',
        obs_latency_ms = (clock lib (Suc (clock_reads w)) - clock lib (clock_reads w)) * 1000,
        obs_status = ''closed'', obs_timestamp = clock lib (Suc (Suc (clock_reads w))),
        obs_error_reason = Some (str_exn e), obs_banner = None, obs_headers = Map.empty,
        obs_body = None, obs_cert_info = Map.empty, obs_response_code = None\<rparr>,
       w\<lparr>script := rest, clock_reads := clock_reads w + 3\<rparr>)"
  using assms by (simp add: MQTTProbe_run_def io_defs)

text \<open>\<open>TCPProbe.run\<close> on a failing connection: the three clauses classify the exception,
  and an exception that is no \<open>OSError\<close> leaves \<open>run\<close>.\<close>

lemma TCPProbe_connect_fault:
  assumes "script w = Inl e # rest"
  shows "TCPProbe_run lib port ip w =
      (if class_of e = TimeoutError \<or> class_of e = ConnectionRefusedError \<or> is_OSError (class_of e)
       then (Inr \<lparr>obs_ip = ip, obs_port = port, obs_protocol = ''tcp'', obs_service = ''tcp'',
               obs_latency_ms = (clock lib (Suc (clock_reads w)) - clock lib (clock_reads w)) * 1000,
               obs_status = (if class_of e = TimeoutError then ''timeout''
                             else if class_of e = ConnectionRefusedError then ''closed'' else ''error''),
               obs_timestamp = clock lib (Suc (Suc (clock_reads w))),
               obs_error_reason = Some (if class_of e = TimeoutError then ''Timeout''
                             else if class_of e = ConnectionRefusedError then ''Refused'' else str_exn e),
               obs_banner = None, obs_headers = Map.empty,
               obs_body = None, obs_cert_info = Map.empty, obs_response_code = None\<rparr>,
             w\<lparr>script := rest, clock_reads := clock_reads w + 3\<rparr>)
       else (Inl e, w\<lparr>script := rest, clock_reads := Suc (clock_reads w)\<rparr>))"
  using assms by (simp add: TCPProbe_run_def io_defs)

text \<open>A protocol probe never raises: whatever its body does, the \<open>except Exception\<close>
  clause returns an observation.\<close>

lemma closed_observation_returns:
  "\<exists>ob w'. closed_observation lib ip port service start_time e w = (Inr ob, w')"
  by (simp add: io_defs)

lemma io_try_closed_returns:
  "\<exists>ob w'. io_try m (closed_observation lib ip port service start_time) w = (Inr ob, w')"
proof (cases "m w")
  case (Pair r w1)
  show ?thesis
  proof (cases r)
    case (Inl e)
    from closed_observation_returns[of lib ip port service start_time e w1]
    show ?thesis using Pair Inl by (simp add: io_try_def)
  next
    case (Inr ob)
    then show ?thesis using Pair by (simp add: io_try_def)
  qed
qed

lemma protocol_probe_returns:
  assumes "port \<in> set [80, 8080, 8000, 443, 8443, 5900, 21, 22, 554, 23, 1883]"
  shows "\<exists>ob w'. run lib (get_probe port) ip w = (Inr ob, w')"
proof -
  have bind: "\<exists>ob w'. io_bind (time_time lib) (\<lambda>start_time.
      io_try (m start_time) (closed_observation lib ip port service start_time)) w = (Inr ob, w')"
    for m :: "int \<Rightarrow> observation io" and service
    using io_try_closed_returns[of "m (clock lib (clock_reads w))" lib ip port service
        "clock lib (clock_reads w)" "w\<lparr>clock_reads := Suc (clock_reads w)\<rparr>"]
    by (simp add: io_bind_def time_time_def)
  from assms consider "port \<in> set [80, 8080, 8000, 443, 8443]" | "port = 5900" | "port = 21"
    | "port = 22" | "port = 554" | "port = 23" | "port = 1883" by auto
  then show ?thesis
  proof cases
    case 1
    then have "get_probe port = HTTPProbe port" by (simp add: get_probe_def)
    then show ?thesis by (simp add: HTTPProbe_run_def bind)
  next
    case 2
    then have "get_probe port = VNCProbe port" by (simp add: get_probe_def)
    then show ?thesis by (simp add: VNCProbe_run_def bind)
  next
    case 3
    then have "get_probe port = FTPProbe port" by (simp add: get_probe_def)
    then show ?thesis by (simp add: FTPProbe_run_def bind)
  next
    case 4
    then have "get_probe port = SSHProbe port" by (simp add: get_probe_def)
    then show ?thesis by (simp add: SSHProbe_run_def bind)
  next
    case 5
    then have "get_probe port = RTSPProbe port" by (simp add: get_probe_def)
    then show ?thesis by (simp add: RTSPProbe_run_def bind)
  next
    case 6
    then have "get_probe port = TelnetProbe port" by (simp add: get_probe_def)
    then show ?thesis by (simp add: TelnetProbe_run_def bind)
  next
    case 7
    then have "get_probe port = MQTTProbe port" by (simp add: get_probe_def)
    then show ?thesis by (simp add: MQTTProbe_run_def bind)
  qed
qed

text \<open>
  C2. The probe that \<open>get_probe\<close> returns for one of the eleven protocol ports does not
  classify a failure. When the connection attempt raises an exception \<open>e\<close>, whatever its
  class, \<open>run\<close> returns an observation with status \<open>closed\<close> and \<open>str(e)\<close> as the reason: a
  timeout gives \<open>closed\<close> with the empty reason and not \<open>timeout\<close>, and another I/O fault
  gives \<open>closed\<close> and not \<open>error\<close>. Only \<open>TCPProbe\<close>, the probe of every other port, has the
  three clauses (lemma \<open>TCPProbe_connect_fault\<close>).
\<close>

theorem protocol_probes_report_closed:
  assumes "port \<in> set [80, 8080, 8000, 443, 8443, 5900, 21, 22, 554, 23, 1883]"
    and "script w = Inl e # rest"
  shows "\<exists>ob. run lib (get_probe port) ip w =
              (Inr ob, w\<lparr>script := rest, clock_reads := clock_reads w + 3\<rparr>) \<and>
            obs_ip ob = ip \<and> obs_port ob = port \<and>
            obs_status ob = ''closed'' \<and> obs_error_reason ob = Some (str_exn e)"
proof -
  from assms(1) consider "port \<in> set [80, 8080, 8000, 443, 8443]" | "port = 5900" | "port = 21"
    | "port = 22" | "port = 554" | "port = 23" | "port = 1883" by auto
  then show ?thesis
  proof cases
    case 1
    then have "get_probe port = HTTPProbe port" by (simp add: get_probe_def)
    then show ?thesis using HTTPProbe_connect_fault[OF assms(2), of lib port ip] by simp
  next
    case 2
    then have "get_probe port = VNCProbe port" by (simp add: get_probe_def)
    then show ?thesis using VNCProbe_connect_fault[OF assms(2), of lib port ip] by simp
  next
    case 3
    then have "get_probe port = FTPProbe port" by (simp add: get_probe_def)
    then show ?thesis using FTPProbe_connect_fault[OF assms(2), of lib port ip] by simp
  next
    case 4
    then have "get_probe port = SSHProbe port" by (simp add: get_probe_def)
    then show ?thesis using SSHProbe_connect_fault[OF assms(2), of lib port ip] by simp
  next
    case 5
    then have "get_probe port = RTSPProbe port" by (simp add: get_probe_def)
    then show ?thesis using RTSPProbe_connect_fault[OF assms(2), of lib port ip] by simp
  next
    case 6
    then have "get_probe port = TelnetProbe port" by (simp add: get_probe_def)
    then show ?thesis using TelnetProbe_connect_fault[OF assms(2), of lib port ip] by simp
  next
    case 7
    then have "get_probe port = MQTTProbe port" by (simp add: get_probe_def)
    then show ?thesis using MQTTProbe_connect_fault[OF assms(2), of lib port ip] by simp
  qed
qed

text \<open>The HTTP probe of port 80 on a connection attempt that times out: status
  \<open>closed\<close>, and the reason is \<open>str\<close> of the timeout, the empty text.\<close>

theorem protocol_probes_report_closed_witness:
  "\<exists>ob. run ascii_lib (get_probe 80) ''192.0.2.1'' (world_of [Inl (Exn TimeoutError [])]) =
          (Inr ob, \<lparr>script = [], clock_reads = 3, sent = []\<rparr>) \<and>
        obs_ip ob = ''192.0.2.1'' \<and> obs_port ob = 80 \<and>
        obs_status ob = ''closed'' \<and> obs_error_reason ob = Some []"
  using protocol_probes_report_closed[where port = 80 and w = "world_of [Inl (Exn TimeoutError [])]"
      and e = "Exn TimeoutError []" and rest = "[]" and lib = ascii_lib and ip = "''192.0.2.1''"]
  by (simp add: world_of_def)

text \<open>The same failures at a port without a probe of its own, and an exception that
  \<open>TCPProbe.run\<close> lets through.\<close>

lemma tcp_probe_runs:
  "\<exists>ob w'. run ascii_lib (get_probe 3389) ''192.0.2.1'' (world_of [Inl (Exn TimeoutError [])]) = (Inr ob, w') \<and>
        obs_status ob = ''timeout'' \<and> obs_error_reason ob = Some ''Timeout''"
  "\<exists>ob w'. run ascii_lib (get_probe 3389) ''192.0.2.1''
             (world_of [Inl (Exn ConnectionRefusedError ''[Errno 111] Connect call failed'')]) = (Inr ob, w') \<and>
        obs_status ob = ''closed'' \<and> obs_error_reason ob = Some ''Refused''"
  "\<exists>ob w'. run ascii_lib (get_probe 3389) ''192.0.2.1''
             (world_of [Inl (Exn OSError ''[Errno 113] No route to host'')]) = (Inr ob, w') \<and>
        obs_status ob = ''error'' \<and> obs_error_reason ob = Some ''[Errno 113] No route to host''"
  "\<exists>w'. run ascii_lib (get_probe 70000) ''192.0.2.1''
             (world_of [Inl (Exn OverflowError ''connect(): port must be 0-65535.'')]) =
          (Inl (Exn OverflowError ''connect(): port must be 0-65535.''), w')"
  by (simp_all add: get_probe_def TCPProbe_connect_fault world_of_def)

text \<open>A read that times out after the connection succeeded: the HTTP probe reports
  \<open>closed\<close>, the TCP probe reports \<open>open\<close> with an empty banner.\<close>

lemma read_timeout_runs:
  "\<exists>ob w'. run ascii_lib (get_probe 80) ''192.0.2.1''
             (world_of [Inr [], Inr [], Inl (Exn TimeoutError [])]) = (Inr ob, w') \<and>
        obs_status ob = ''closed'' \<and> obs_error_reason ob = Some []"
  "\<exists>ob w'. run ascii_lib (get_probe 3389) ''192.0.2.1''
             (world_of [Inr [], Inl (Exn TimeoutError [])]) = (Inr ob, w') \<and>
        obs_status ob = ''open'' \<and> obs_banner ob = Some []"
  by (simp_all add: get_probe_def HTTPProbe_run_def TCPProbe_run_def io_defs world_of_def ascii_lib_def
      strip_def Let_def)

text \<open>Scenario E6 of the specification: the broker answers \<open>20 02 00 00\<close>.\<close>

lemma e6_run:
  "\<exists>ob w'. run ascii_lib (get_probe 1883) ''192.0.2.1''
             (world_of [Inr [], Inr [], Inr [CHR 0x20, CHR 0x02, CHR 0x00, CHR 0x00]]) = (Inr ob, w') \<and>
        obs_status ob = ''open'' \<and> obs_service ob = ''mqtt'' \<and>
        obs_banner ob = Some ''Access ALLOWED (No Auth)'' \<and> sent w' = [connect_packet]"
  by (simp add: get_probe_def MQTTProbe_run_def mqtt_status_msg_def io_defs world_of_def ascii_lib_def)

text \<open>The HTTP probe on the response of an Apache server: its banner, headers and body
  are those of \<open>served_obs\<close>, the observation on which the fingerprinter loses the
  version.\<close>

lemmas text_defs = startswith_def split1_def split_str_def parse_headers_def parse_status_code_def
  CRLF_def str_lower_def lower_char_def

lemma http_probe_run:
  "\<exists>ob w'. run ascii_lib (get_probe 80) ''192.0.2.1''
             (world_of [Inr [], Inr [],
                Inr (''HTTP/1.1 200 OK'' @ CRLF @ ''Server: Apache/2.4.41 (Ubuntu)'' @ CRLF @ CRLF)]) =
           (Inr ob, w') \<and>
        obs_status ob = ''open'' \<and> obs_response_code ob = Some 200 \<and>
        obs_banner ob = obs_banner served_obs \<and> obs_headers ob = obs_headers served_obs \<and>
        obs_body ob = obs_body served_obs"
  by (simp add: get_probe_def HTTPProbe_run_def io_defs world_of_def ascii_lib_def text_defs
      served_obs_def fp_obs_def Let_def parse_digits_def digit_val_def split_on.simps)

subsection \<open>The Telnet probe\<close>

lemma add_numeral_eq_Suc:
  "n + 2 = Suc (Suc n)" "n + 3 = Suc (Suc (Suc n))" "n + 4 = Suc (Suc (Suc (Suc n)))"
  by simp_all

text \<open>
  C9. The Telnet probe never reports an open port. For every library, address, clock
  and traffic in which the connection succeeds and the read returns bytes, \<open>run\<close> of the
  probe of port 23 returns status \<open>closed\<close>, no banner, and the reason
  \<open>name 're' is not defined\<close>: the module does not import \<open>re\<close>, so the call \<open>re.sub\<close> that
  is to strip the unprintable characters raises \<open>NameError\<close>, which the
  \<open>except Exception\<close> clause turns into a closed port.
\<close>

theorem telnet_probe_reports_closed:
  "run lib (get_probe 23) ip \<lparr>script = Inr c # Inr data # rest, clock_reads = n, sent = s\<rparr> =
     (Inr \<lparr>obs_ip = ip, obs_port = 23, obs_protocol = ''tcp'', obs_service = ''telnet'',
        obs_latency_ms = (clock lib (n + 2) - clock lib n) * 1000,
        obs_status = ''closed'', obs_timestamp = clock lib (n + 3),
        obs_error_reason = Some (''name '' @ QUOTE @ ''re'' @ QUOTE @ '' is not defined''),
        obs_banner = None, obs_headers = Map.empty,
        obs_body = None, obs_cert_info = Map.empty, obs_response_code = None\<rparr>,
      \<lparr>script = rest, clock_reads = n + 4, sent = s\<rparr>)"
  by (simp add: get_probe_def TelnetProbe_run_def io_defs load_global_def module_globals_def
      add_numeral_eq_Suc)

text \<open>A greeting of a Telnet server that starts with a bell character, and what the
  cleaning would leave of it.\<close>

lemma telnet_run:
  "\<exists>ob w'. run ascii_lib (get_probe 23) ''192.0.2.1''
             (world_of [Inr [], Inr ([CHR 0x07] @ ''login: '')]) = (Inr ob, w') \<and>
        obs_status ob = ''closed'' \<and> obs_banner ob = None"
  "re_sub_unprintable (strip (decode_ignore ascii_lib ([CHR 0x07] @ ''login: ''))) = ''login:''"
  by (simp_all add: get_probe_def TelnetProbe_run_def io_defs load_global_def module_globals_def
      world_of_def ascii_lib_def re_sub_unprintable_def strip_def is_space_def)

subsection \<open>Resetting a chunk\<close>

lemma scan_state_update_where_id:
  "scan_state (update_where_id cid f db) =
     map (\<lambda>c. if chunk_id c = cid then f c else c) (scan_state db)"
  by (simp add: update_where_id_def)

text \<open>
  C10. \<open>reset_stale_chunk\<close> keeps the number and order of the rows of \<open>scan_state\<close>; the
  row with the given id becomes QUEUED with \<open>retry_count = 0\<close> and \<open>updated_at\<close> the
  current time, whatever its status was, and keeps its id, cidr, range, priority,
  last error and creation time; every other row and every other table is unchanged.
\<close>

theorem reset_stale_chunk_frame:
  "length (scan_state (reset_stale_chunk now cid db)) = length (scan_state db) \<and>
   (\<forall>i < length (scan_state db).
      let c = scan_state db ! i; c' = scan_state (reset_stale_chunk now cid db) ! i
      in (chunk_id c = cid \<longrightarrow>
            status c' = QUEUED \<and> retry_count c' = 0 \<and> updated_at c' = now \<and>
            chunk_id c' = chunk_id c \<and> cidr c' = cidr c \<and>
            chunk_start c' = chunk_start c \<and> chunk_end c' = chunk_end c \<and>
            priority c' = priority c \<and> last_error c' = last_error c \<and>
            created_at c' = created_at c) \<and>
         (chunk_id c \<noteq> cid \<longrightarrow> c' = c)) \<and>
   hosts (reset_stale_chunk now cid db) = hosts db \<and>
   services (reset_stale_chunk now cid db) = services db \<and>
   history (reset_stale_chunk now cid db) = history db"
  by (simp add: reset_stale_chunk_def update_where_id_def Let_def)

text \<open>Resetting the FAILED chunk 2 of the demo table at time 500: it is queued again
  although it never completed, and chunk 1 is untouched.\<close>

theorem reset_stale_chunk_frame_witness:
  "scan_state (reset_stale_chunk 500 2 demo_chunks) =
     [\<lparr>chunk_id = 1, cidr = ''10.0.0.0/24'', chunk_start = Some ''10.0.0.0'',
       chunk_end = Some ''10.0.0.255'', status = COMPLETED, priority = 10, retry_count = 1,
       last_error = Some ''boom'', created_at = 100, updated_at = 200\<rparr>,
      \<lparr>chunk_id = 2, cidr = ''10.0.1.0/24'', chunk_start = Some ''10.0.1.0'',
       chunk_end = Some ''10.0.1.255'', status = QUEUED, priority = 3, retry_count = 0,
       last_error = Some ''Max Retries Exceeded'', created_at = 110, updated_at = 500\<rparr>]"
  using reset_stale_chunk_frame [of 500 2 demo_chunks]
  by (simp add: reset_stale_chunk_def update_where_id_def demo_chunks_def empty_db_def)

end
